theory Spec2Isabelle
  imports Main "HOL-Library.Word"
begin

section \<open>Python values\<close>

text \<open>
  The module \<^verbatim>\<open>jetforce/protocol.py\<close> handles one Gemini request per TCP connection.
  Its \<^verbatim>\<open>bytes\<close> are lists of 8-bit words. Its \<^verbatim>\<open>str\<close> are lists of Unicode code
  points, so that \<^verbatim>\<open>encode()\<close> and \<^verbatim>\<open>decode()\<close> are real conversions which can
  fail, as they can in Python: a \<^verbatim>\<open>str\<close> may hold a lone surrogate, which has no UTF-8
  encoding, and not every byte sequence is UTF-8.
\<close>

type_synonym byte = "8 word"
type_synonym bytes = "byte list"
type_synonym pystr = "nat list"

text \<open>The exceptions that can travel through the handler.\<close>

datatype error =
    ValueError
  | UnicodeDecodeError
  | UnicodeEncodeError
  | AttributeError
  | ApplicationError nat

text \<open>An ASCII literal of the source, as a \<^verbatim>\<open>str\<close>.\<close>

definition lit :: "string \<Rightarrow> pystr" where
  "lit cs = map of_char cs"

text \<open>\<^verbatim>\<open>str(n)\<close> and \<^verbatim>\<open>"{}".format(n)\<close> for an integer: its decimal digits.\<close>

fun str_nat :: "nat \<Rightarrow> pystr" where
  "str_nat n = (if n < 10 then [48 + n] else str_nat (n div 10) @ [48 + n mod 10])"

declare str_nat.simps [simp del]

definition str_int :: "int \<Rightarrow> pystr" where
  "str_int i = (if i < 0 then 45 # str_nat (nat (- i)) else str_nat (nat i))"

subsection \<open>The UTF-8 codec\<close>

text \<open>
  \<^verbatim>\<open>str.encode()\<close> with its default arguments: strict UTF-8. A surrogate code point
  raises \<^verbatim>\<open>UnicodeEncodeError\<close>; here the result is \<open>None\<close>.
\<close>

definition encode_char :: "nat \<Rightarrow> bytes option" where
  "encode_char c =
     (if c < 0x80 then Some [of_nat c]
      else if c < 0x800 then Some [of_nat (0xC0 + c div 64), of_nat (0x80 + c mod 64)]
      else if 0xD800 \<le> c \<and> c < 0xE000 then None
      else if c < 0x10000 then
        Some [of_nat (0xE0 + c div 4096), of_nat (0x80 + c div 64 mod 64),
              of_nat (0x80 + c mod 64)]
      else if c < 0x110000 then
        Some [of_nat (0xF0 + c div 262144), of_nat (0x80 + c div 4096 mod 64),
              of_nat (0x80 + c div 64 mod 64), of_nat (0x80 + c mod 64)]
      else None)"

fun str_encode :: "pystr \<Rightarrow> bytes option" where
  "str_encode [] = Some []"
| "str_encode (c # cs) =
     (case encode_char c of
        None \<Rightarrow> None
      | Some bs \<Rightarrow>
          (case str_encode cs of None \<Rightarrow> None | Some rest \<Rightarrow> Some (bs @ rest)))"

text \<open>
  \<^verbatim>\<open>bytes.decode()\<close> with its default arguments: strict UTF-8, which refuses
  continuation bytes out of place, truncated sequences, overlong forms, surrogates and
  code points beyond U+10FFFF. \<open>decode_char b bs\<close> reads the character that starts with
  the byte \<open>b\<close> and gives its code point and the number of bytes of \<open>bs\<close> it uses.
\<close>

definition is_cont :: "byte \<Rightarrow> bool" where
  "is_cont b = (0x80 \<le> unat b \<and> unat b < 0xC0)"

definition cont_bits :: "byte \<Rightarrow> nat" where
  "cont_bits b = unat b - 0x80"

definition decode_char :: "byte \<Rightarrow> bytes \<Rightarrow> (nat \<times> nat) option" where
  "decode_char b bs =
     (let n = unat b in
      if n < 0x80 then Some (n, 0)
      else if n < 0xC2 then None
      else if n < 0xE0 then
        (case bs of
           b1 # _ \<Rightarrow>
             if is_cont b1 then Some ((n - 0xC0) * 64 + cont_bits b1, 1) else None
         | _ \<Rightarrow> None)
      else if n < 0xF0 then
        (case bs of
           b1 # b2 # _ \<Rightarrow>
             if is_cont b1 \<and> is_cont b2
                \<and> (if n = 0xE0 then 0xA0 \<le> unat b1 else True)
                \<and> (if n = 0xED then unat b1 < 0xA0 else True)
             then Some ((n - 0xE0) * 4096 + cont_bits b1 * 64 + cont_bits b2, 2)
             else None
         | _ \<Rightarrow> None)
      else if n < 0xF5 then
        (case bs of
           b1 # b2 # b3 # _ \<Rightarrow>
             if is_cont b1 \<and> is_cont b2 \<and> is_cont b3
                \<and> (if n = 0xF0 then 0x90 \<le> unat b1 else True)
                \<and> (if n = 0xF4 then unat b1 < 0x90 else True)
             then Some ((n - 0xF0) * 262144 + cont_bits b1 * 4096 + cont_bits b2 * 64
                         + cont_bits b3, 3)
             else None
         | _ \<Rightarrow> None)
      else None)"

fun bytes_decode :: "bytes \<Rightarrow> pystr option" where
  "bytes_decode [] = Some []"
| "bytes_decode (b # bs) =
     (case decode_char b bs of
        None \<Rightarrow> None
      | Some (c, k) \<Rightarrow>
          (case bytes_decode (drop k bs) of None \<Rightarrow> None | Some cs \<Rightarrow> Some (c # cs)))"

section \<open>The connection\<close>

text \<open>
  \<^verbatim>\<open>client_addr\<close> is the peer's \<^verbatim>\<open>IPv4Address\<close> or \<^verbatim>\<open>IPv6Address\<close>; the handler reads
  its \<^verbatim>\<open>host\<close> and \<^verbatim>\<open>port\<close>.
\<close>

record address =
  host :: pystr
  port :: nat

text \<open>
  What a connection does to the outside, oldest first: \<^verbatim>\<open>transport.write(data)\<close>,
  \<^verbatim>\<open>transport.loseConnection()\<close> and \<^verbatim>\<open>server.log_message(text)\<close>. The text of a
  traceback is not modelled: \<open>Traceback e\<close> stands for \<^verbatim>\<open>traceback.format_exc()\<close>
  while the exception \<open>e\<close> is handled.
\<close>

datatype message = Traceback error | Text pystr

datatype event = Write bytes | LoseConnection | LogMessage message

text \<open>
  The attributes of a \<^verbatim>\<open>GeminiProtocol\<close>. \<^verbatim>\<open>connectionMade\<close> does not assign
  \<^verbatim>\<open>url\<close>, \<^verbatim>\<open>status\<close> and \<^verbatim>\<open>meta\<close>: until they are, reading them raises
  \<^verbatim>\<open>AttributeError\<close>, so they are options. \<^verbatim>\<open>connected_timestamp\<close> is kept as the
  text \<^verbatim>\<open>time.strftime(TIMESTAMP_FORMAT, ...)\<close> makes of it, the one use the class has
  for it. \<open>effects\<close> records the calls on the transport and on the server's log.
\<close>

record protocol =
  client_addr :: address
  connected_timestamp :: pystr
  request :: bytes
  url :: "pystr option"
  status :: "int option"
  meta :: "pystr option"
  response_buffer :: pystr
  response_size :: nat
  effects :: "event list"

text \<open>
  \<^verbatim>\<open>connectionMade\<close>, given the peer of the transport and the local time. \<^verbatim>\<open>request\<close>
  is assigned by \<^verbatim>\<open>lineReceived\<close> before anything reads it.
\<close>

definition connectionMade :: "address \<Rightarrow> pystr \<Rightarrow> protocol" where
  "connectionMade peer now =
     \<lparr>client_addr = peer, connected_timestamp = now, request = [], url = None,
      status = None, meta = None, response_buffer = [], response_size = 0, effects = []\<rparr>"

definition transport_write :: "bytes \<Rightarrow> protocol \<Rightarrow> protocol" where
  "transport_write data s = s\<lparr>effects := effects s @ [Write data]\<rparr>"

definition loseConnection :: "protocol \<Rightarrow> protocol" where
  "loseConnection s = s\<lparr>effects := effects s @ [LoseConnection]\<rparr>"

definition log_message :: "message \<Rightarrow> protocol \<Rightarrow> protocol" where
  "log_message m s = s\<lparr>effects := effects s @ [LogMessage m]\<rparr>"

text \<open>The chunks handed to \<^verbatim>\<open>transport.write\<close>, in order.\<close>

fun written :: "event list \<Rightarrow> bytes list" where
  "written [] = []"
| "written (Write data # es) = data # written es"
| "written (e # es) = written es"

section \<open>The response writer\<close>

text \<open>The status line \<^verbatim>\<open>f"{status}\t{meta}\r\n"\<close>.\<close>

definition status_line :: "int \<Rightarrow> pystr \<Rightarrow> pystr" where
  "status_line st mt = str_int st @ [9] @ mt @ [13, 10]"

definition write_status :: "int \<Rightarrow> pystr \<Rightarrow> protocol \<Rightarrow> protocol" where
  "write_status st mt s =
     s\<lparr>status := Some st, meta := Some mt, response_buffer := status_line st mt\<rparr>"

text \<open>
  \<^verbatim>\<open>flush_status\<close>. The only statement that can raise is \<^verbatim>\<open>encode()\<close>, and it runs
  before the first assignment: when the result is \<open>Inl\<close> the object is as it was.
\<close>

definition flush_status :: "protocol \<Rightarrow> error + protocol" where
  "flush_status s =
     (if response_buffer s \<noteq> [] \<and> response_size s = 0 then
        (case str_encode (response_buffer s) of
           None \<Rightarrow> Inl UnicodeEncodeError
         | Some data \<Rightarrow>
             Inr ((transport_write data (s\<lparr>response_size := response_size s + length data\<rparr>))
                    \<lparr>response_buffer := []\<rparr>))
      else Inr (s\<lparr>response_buffer := []\<rparr>))"

text \<open>The argument of \<^verbatim>\<open>write_body\<close> is a \<^verbatim>\<open>typing.Union[str, bytes]\<close>.\<close>

datatype data = Str pystr | Bytes bytes

text \<open>\<^verbatim>\<open>if isinstance(data, str): data = data.encode()\<close>\<close>

definition payload :: "data \<Rightarrow> bytes option" where
  "payload d = (case d of Str t \<Rightarrow> str_encode t | Bytes b \<Rightarrow> Some b)"

text \<open>
  \<^verbatim>\<open>write_body\<close>. Both places that can raise, the \<^verbatim>\<open>encode()\<close> of the chunk and
  \<^verbatim>\<open>flush_status\<close>, come before the first assignment.
\<close>

definition write_body :: "data \<Rightarrow> protocol \<Rightarrow> error + protocol" where
  "write_body d s =
     (case payload d of
        None \<Rightarrow> Inl UnicodeEncodeError
      | Some bs \<Rightarrow>
          (case flush_status s of
             Inl e \<Rightarrow> Inl e
           | Inr s1 \<Rightarrow>
               Inr (transport_write bs (s1\<lparr>response_size := response_size s1 + length bs\<rparr>))))"

text \<open>
  A sequence of calls on the writer, made one after the other; an exception ends it.
\<close>

datatype call = WriteStatus int pystr | WriteBody data | FlushStatus

fun is_WriteStatus :: "call \<Rightarrow> bool" where
  "is_WriteStatus (WriteStatus st mt) = True"
| "is_WriteStatus c = False"

fun calls :: "call list \<Rightarrow> protocol \<Rightarrow> error + protocol" where
  "calls [] s = Inr s"
| "calls (WriteStatus st mt # cs) s = calls cs (write_status st mt s)"
| "calls (WriteBody d # cs) s =
     (case write_body d s of Inl e \<Rightarrow> Inl e | Inr s1 \<Rightarrow> calls cs s1)"
| "calls (FlushStatus # cs) s =
     (case flush_status s of Inl e \<Rightarrow> Inl e | Inr s1 \<Rightarrow> calls cs s1)"

text \<open>
  The encoded chunks of the \<^verbatim>\<open>write_body\<close> calls of a sequence, in order; \<open>None\<close> when
  one of them is a \<^verbatim>\<open>str\<close> that has no encoding.
\<close>

fun bodies :: "call list \<Rightarrow> bytes list option" where
  "bodies [] = Some []"
| "bodies (WriteBody d # cs) =
     (case payload d of
        None \<Rightarrow> None
      | Some bs \<Rightarrow> (case bodies cs of None \<Rightarrow> None | Some rest \<Rightarrow> Some (bs # rest)))"
| "bodies (c # cs) = bodies cs"

section \<open>The request parser\<close>

text \<open>
  \<^verbatim>\<open>parse_header\<close>: more than 1024 bytes raise \<^verbatim>\<open>ValueError\<close>, bytes that are not
  UTF-8 make \<^verbatim>\<open>decode()\<close> raise \<^verbatim>\<open>UnicodeDecodeError\<close>; otherwise \<^verbatim>\<open>url\<close> is
  assigned.
\<close>

definition parse_header :: "protocol \<Rightarrow> error + protocol" where
  "parse_header s =
     (if length (request s) > 1024 then Inl ValueError
      else (case bytes_decode (request s) of
              None \<Rightarrow> Inl UnicodeDecodeError
            | Some u \<Rightarrow> Inr (s\<lparr>url := Some u\<rparr>)))"

section \<open>The access logger\<close>

text \<open>\<^verbatim>\<open>'{} [{}] "{}" {} {} {}'.format(...)\<close>\<close>

definition access_line :: "pystr \<Rightarrow> pystr \<Rightarrow> pystr \<Rightarrow> int \<Rightarrow> pystr \<Rightarrow> nat \<Rightarrow> pystr" where
  "access_line h ts u st mt n =
     h @ lit '' ['' @ ts @ [93, 32, 34] @ u @ [34, 32] @ str_int st @ [32] @ mt @ [32]
       @ str_nat n"

text \<open>
  \<^verbatim>\<open>log_request\<close>: when \<^verbatim>\<open>url\<close>, \<^verbatim>\<open>status\<close> or \<^verbatim>\<open>meta\<close> was never assigned, building
  the message raises \<^verbatim>\<open>AttributeError\<close>, which is caught, and nothing is logged.
\<close>

definition log_request :: "protocol \<Rightarrow> protocol" where
  "log_request s =
     (case url s of
        None \<Rightarrow> s
      | Some u \<Rightarrow>
          (case status s of
             None \<Rightarrow> s
           | Some st \<Rightarrow>
               (case meta s of
                  None \<Rightarrow> s
                | Some mt \<Rightarrow>
                    log_message
                      (Text (access_line (host (client_addr s)) (connected_timestamp s) u st mt
                               (response_size s))) s)))"

section \<open>The context builder\<close>

text \<open>
  The values of the \<^verbatim>\<open>environ\<close> dictionary. A certificate is an opaque object; the
  pyOpenSSL certificate of the transport and what \<^verbatim>\<open>to_cryptography()\<close> makes of it
  are the same \<open>certificate\<close> here.
\<close>

datatype certificate = Certificate nat

datatype pyval = PyNone | PyStr pystr | PyInt int | PyBool bool | PyCertificate certificate

text \<open>
  Modelled from the spec: \<^verbatim>\<open>inspect_certificate\<close> of \<^verbatim>\<open>jetforce/tls.py\<close> is not part
  of the sources at hand. The spec takes it to return a ready-made attribute mapping;
  \<^verbatim>\<open>build_environ\<close> reads these five keys of it.
\<close>

record cert_data =
  common_name :: pyval
  fingerprint :: pyval
  not_before :: pyval
  not_after :: pyval
  serial_number :: pyval

text \<open>
  What the handler reads from outside its own object, none of it defined in
  \<^verbatim>\<open>protocol.py\<close>: the server (\<^verbatim>\<open>hostname\<close>; \<open>server_port\<close> is the port the server
  listens on, which the handler never reads), \<^verbatim>\<open>__version__\<close>, the two \<^verbatim>\<open>Status\<close>
  codes, \<^verbatim>\<open>urllib.parse.urlparse\<close> (the path and the query of its result, or the
  exception it raises), and the TLS side of the transport: \<^verbatim>\<open>getPeerCertificate()\<close>,
  \<^verbatim>\<open>inspect_certificate\<close>, and of \<^verbatim>\<open>getHandle()\<close> the attribute \<^verbatim>\<open>verified\<close> (when it
  has one), \<^verbatim>\<open>get_cipher_name()\<close> and \<^verbatim>\<open>get_protocol_version_name()\<close>.
\<close>

record deps =
  hostname :: pystr
  server_port :: nat
  version :: pystr
  BAD_REQUEST :: int
  CGI_ERROR :: int
  urlparse :: "pystr \<Rightarrow> error + pystr \<times> pystr"
  getPeerCertificate :: "certificate option"
  inspect_certificate :: "certificate \<Rightarrow> error + cert_data"
  verified :: "pyval option"
  get_cipher_name :: pyval
  get_protocol_version_name :: pyval

text \<open>The keys of \<^verbatim>\<open>environ\<close> are the ASCII literals of the source.\<close>

type_synonym environ = "string \<rightharpoonup> pyval"

definition build_environ :: "deps \<Rightarrow> protocol \<Rightarrow> error + environ" where
  "build_environ w s =
     (case url s of
        None \<Rightarrow> Inl AttributeError
      | Some u \<Rightarrow>
          (case urlparse w u of
             Inl e \<Rightarrow> Inl e
           | Inr (path, query) \<Rightarrow>
               (let environ = map_of
                  [(''GEMINI_URL'', PyStr u),
                   (''HOSTNAME'', PyStr (hostname w)),
                   (''PATH_INFO'', PyStr path),
                   (''QUERY_STRING'', PyStr query),
                   (''REMOTE_ADDR'', PyStr (host (client_addr s))),
                   (''REMOTE_HOST'', PyStr (host (client_addr s))),
                   (''SERVER_NAME'', PyStr (hostname w)),
                   (''SERVER_PORT'', PyStr (str_nat (port (client_addr s)))),
                   (''SERVER_PROTOCOL'', PyStr (lit ''GEMINI'')),
                   (''SERVER_SOFTWARE'', PyStr (lit ''jetforce/'' @ version w)),
                   (''client_certificate'', PyNone)]
                in (case getPeerCertificate w of
                      None \<Rightarrow> Inr environ
                    | Some cert \<Rightarrow>
                        (case inspect_certificate w cert of
                           Inl e \<Rightarrow> Inl e
                         | Inr cert_data \<Rightarrow>
                             Inr (environ ++ map_of
                               [(''client_certificate'', PyCertificate cert),
                                (''AUTH_TYPE'', PyStr (lit ''CERTIFICATE'')),
                                (''REMOTE_USER'', common_name cert_data),
                                (''TLS_CLIENT_HASH'', fingerprint cert_data),
                                (''TLS_CLIENT_NOT_BEFORE'', not_before cert_data),
                                (''TLS_CLIENT_NOT_AFTER'', not_after cert_data),
                                (''TLS_CLIENT_SERIAL_NUMBER'', serial_number cert_data),
                                (''TLS_CLIENT_VERIFIED'',
                                   (case verified w of None \<Rightarrow> PyBool False | Some v \<Rightarrow> v)),
                                (''TLS_CIPHER'', get_cipher_name w),
                                (''TLS_VERSION'', get_protocol_version_name w)]))))))"

text \<open>The nine keys of the TLS identity.\<close>

definition tls_keys :: "string list" where
  "tls_keys =
     [''AUTH_TYPE'', ''REMOTE_USER'', ''TLS_CLIENT_HASH'', ''TLS_CLIENT_NOT_BEFORE'',
      ''TLS_CLIENT_NOT_AFTER'', ''TLS_CLIENT_SERIAL_NUMBER'', ''TLS_CLIENT_VERIFIED'',
      ''TLS_CIPHER'', ''TLS_VERSION'']"

section \<open>The connection handler\<close>

text \<open>
  The application is opaque. What the handler sees of one run of it, in order, is: the
  calls it makes of the \<^verbatim>\<open>write_status\<close> callback, the chunks its generator yields,
  and either \<^verbatim>\<open>StopIteration\<close> (the end of the list) or an exception (\<open>Raise\<close>), whether
  from the call of the application or from a \<^verbatim>\<open>__next__\<close>. The handler awaits each
  step before the next, so the steps of one connection are a sequence. The sequence is
  finite, as the producer of the spec is: a generator that never ends has no list, and
  it would keep the handler in its loop for ever.
\<close>

datatype action = CallWriteStatus int pystr | Yield data | Raise error

type_synonym application = "environ \<Rightarrow> action list"

text \<open>
  The handler's loop over the application. The result is the exception that left the
  \<^verbatim>\<open>try\<close> block, if one did, and the object at that moment.
\<close>

fun respond :: "action list \<Rightarrow> protocol \<Rightarrow> error option \<times> protocol" where
  "respond [] s = (None, s)"
| "respond (CallWriteStatus st mt # as) s = respond as (write_status st mt s)"
| "respond (Yield d # as) s =
     (case write_body d s of Inl e \<Rightarrow> (Some e, s) | Inr s1 \<Rightarrow> respond as s1)"
| "respond (Raise e # as) s = (Some e, s)"

text \<open>
  \<^verbatim>\<open>_handle_request_noblock\<close>. The result is the exception that leaves the coroutine,
  if one does, and the object at the end. In the first \<^verbatim>\<open>except\<close> block the exception
  is raised again after the connection is closed. In the second block it is logged and
  dropped, and the \<^verbatim>\<open>finally\<close> block runs on every path; an exception of
  \<^verbatim>\<open>flush_status\<close> there leaves the coroutine before \<^verbatim>\<open>log_request\<close>.
\<close>

definition handle_request :: "deps \<Rightarrow> application \<Rightarrow> protocol \<Rightarrow> error option \<times> protocol" where
  "handle_request w app s =
     (case parse_header s of
        Inl e \<Rightarrow>
          (let s1 = write_status (BAD_REQUEST w) (lit ''Malformed request'')
                      (log_message (Traceback e) s)
           in (case flush_status s1 of
                 Inl e' \<Rightarrow> (Some e', s1)
               | Inr s2 \<Rightarrow> (Some e, loseConnection s2)))
      | Inr s0 \<Rightarrow>
          (let (r, s1) =
                 (case build_environ w s0 of
                    Inl e \<Rightarrow> (Some e, s0)
                  | Inr environ \<Rightarrow> respond (app environ) s0);
               s2 = (case r of
                       None \<Rightarrow> s1
                     | Some e \<Rightarrow>
                         write_status (CGI_ERROR w) (lit ''An unexpected error occurred'')
                           (log_message (Traceback e) s1))
           in (case flush_status s2 of
                 Inl e' \<Rightarrow> (Some e', s2)
               | Inr s3 \<Rightarrow> (None, loseConnection (log_request s3)))))"

text \<open>\<^verbatim>\<open>lineReceived\<close>: the line becomes \<^verbatim>\<open>request\<close> and the handler runs.\<close>

definition lineReceived :: "deps \<Rightarrow> application \<Rightarrow> bytes \<Rightarrow> protocol \<Rightarrow> error option \<times> protocol" where
  "lineReceived w app line s = handle_request w app (s\<lparr>request := line\<rparr>)"

text \<open>Predicates on the trace of a connection.\<close>

fun is_access_line :: "event \<Rightarrow> bool" where
  "is_access_line (LogMessage (Text t)) = True"
| "is_access_line e = False"

fun is_close :: "event \<Rightarrow> bool" where
  "is_close LoseConnection = True"
| "is_close e = False"

section \<open>What a connection is expected to do\<close>

text \<open>
  The trace a connection is expected to leave (claim C2), written from the run of the
  application alone, with no reference to the object of the handler. It is compared
  with the trace of \<open>handle_request\<close> below.
\<close>

fun is_yield :: "action \<Rightarrow> bool" where
  "is_yield (Yield d) = True"
| "is_yield a = False"

fun is_status :: "action \<Rightarrow> bool" where
  "is_status (CallWriteStatus st mt) = True"
| "is_status a = False"

text \<open>
  The actions an application gets to perform, and the exception that ends its run: its
  own (\<open>Raise\<close>), or the \<^verbatim>\<open>UnicodeEncodeError\<close> of a yielded \<^verbatim>\<open>str\<close> that has no
  encoding. \<open>None\<close> is a run that ends by exhaustion.
\<close>

fun performed :: "action list \<Rightarrow> action list" where
  "performed [] = []"
| "performed (CallWriteStatus st mt # as) = CallWriteStatus st mt # performed as"
| "performed (Yield d # as) = (if payload d = None then [] else Yield d # performed as)"
| "performed (Raise e # as) = []"

fun outcome :: "action list \<Rightarrow> error option" where
  "outcome [] = None"
| "outcome (CallWriteStatus st mt # as) = outcome as"
| "outcome (Yield d # as) = (if payload d = None then Some UnicodeEncodeError else outcome as)"
| "outcome (Raise e # as) = Some e"

text \<open>The chunks a run yields, encoded, and the status calls it makes, both in order.\<close>

fun chunks :: "action list \<Rightarrow> bytes list" where
  "chunks [] = []"
| "chunks (Yield d # as) = (case payload d of None \<Rightarrow> chunks as | Some b \<Rightarrow> b # chunks as)"
| "chunks (a # as) = chunks as"

fun statuses :: "action list \<Rightarrow> (int \<times> pystr) list" where
  "statuses [] = []"
| "statuses (CallWriteStatus st mt # as) = (st, mt) # statuses as"
| "statuses (a # as) = statuses as"

text \<open>The bytes of the status line \<^verbatim>\<open>f"{status}\t{meta}\r\n"\<close>.\<close>

definition line_bytes :: "int \<times> pystr \<Rightarrow> bytes" where
  "line_bytes sm = (case str_encode (status_line (fst sm) (snd sm)) of None \<Rightarrow> [] | Some b \<Rightarrow> b)"

text \<open>
  What the streaming loop puts on the transport for the actions performed: the chunks
  that come before any status call; then, if those were all empty and a chunk follows
  the first block of status calls, the status line of the last call of that block; then
  the chunks after that block. Status calls made later send nothing.
\<close>

definition streamed :: "action list \<Rightarrow> bytes list" where
  "streamed p =
     (let lead = takeWhile is_yield p; rest = dropWhile is_yield p;
          block = takeWhile is_status rest; tail = dropWhile is_status rest
      in chunks lead
         @ (if concat (chunks lead) = [] \<and> block \<noteq> [] \<and> tail \<noteq> []
            then [line_bytes (last (statuses block))] else [])
         @ chunks tail)"

text \<open>
  The whole trace of a connection whose request line parsed to the URL \<open>u\<close>: what the
  streaming wrote; the traceback, if the run ended by an exception, which also makes
  the handler call \<^verbatim>\<open>write_status\<close> with the CGI error; and then the terminal sequence:
  the status line still pending is written if no byte has gone out (a line is pending
  when the last call was a status call); the access-log line is written if any status
  call was made, with the status and meta of the last one and the number of bytes
  written; the transport is closed.
\<close>

definition expected_effects :: "deps \<Rightarrow> address \<Rightarrow> pystr \<Rightarrow> pystr \<Rightarrow> action list \<Rightarrow> event list" where
  "expected_effects w peer now u as =
     (let p = performed as;
          all = (case outcome as of
                   None \<Rightarrow> p
                 | Some e \<Rightarrow> p @ [CallWriteStatus (CGI_ERROR w)
                                    (lit ''An unexpected error occurred'')]);
          last_flush = (if all \<noteq> [] \<and> is_status (last all) \<and> concat (streamed p) = []
                        then [line_bytes (last (statuses all))] else [])
      in map Write (streamed p)
         @ (case outcome as of None \<Rightarrow> [] | Some e \<Rightarrow> [LogMessage (Traceback e)])
         @ map Write last_flush
         @ (if statuses all = [] then []
            else [LogMessage (Text (access_line (host peer) now u
                    (fst (last (statuses all))) (snd (last (statuses all)))
                    (length (concat (streamed p @ last_flush)))))])
         @ [LoseConnection])"

text \<open>
  The run the handler deals with: an exception of \<^verbatim>\<open>build_environ\<close> is inside the same
  \<^verbatim>\<open>try\<close> block as the application, and counts as a run that raises at once.
\<close>

definition script :: "deps \<Rightarrow> application \<Rightarrow> protocol \<Rightarrow> action list" where
  "script w app s = (case build_environ w s of Inl e \<Rightarrow> [Raise e] | Inr environ \<Rightarrow> app environ)"

section \<open>Example inputs\<close>

text \<open>
  A peer, a connection time, and a server on port 1965 whose status codes are those of
  Gemini. \<open>example_urlparse\<close> is what \<^verbatim>\<open>urlparse\<close> gives for the URL of the examples,
  \<^verbatim>\<open>gemini://example.org/\<close>: the path \<^verbatim>\<open>/\<close> and no query.
\<close>

definition example_peer :: address where
  "example_peer = \<lparr>host = lit ''203.0.113.7'', port = 54321\<rparr>"

definition example_now :: pystr where
  "example_now = lit ''03/Nov/2026:12:00:00 +0000''"

definition example_url :: bytes where
  "example_url = map of_char ''gemini://example.org/''"

definition example_urlparse :: "pystr \<Rightarrow> error + pystr \<times> pystr" where
  "example_urlparse u = Inr (lit ''/'', [])"

definition example_cert_data :: cert_data where
  "example_cert_data =
     \<lparr>common_name = PyStr (lit ''alice''), fingerprint = PyStr (lit ''SHA256:47DEQpj8''),
      not_before = PyStr (lit ''2026-01-01''), not_after = PyStr (lit ''2027-01-01''),
      serial_number = PyInt 4096\<rparr>"

definition example_deps :: deps where
  "example_deps =
     \<lparr>hostname = lit ''example.org'', server_port = 1965, version = lit ''0.2.0'',
      BAD_REQUEST = 59, CGI_ERROR = 42, urlparse = example_urlparse,
      getPeerCertificate = None, inspect_certificate = (\<lambda>c. Inr example_cert_data),
      verified = None, get_cipher_name = PyStr (lit ''TLS_AES_256_GCM_SHA384''),
      get_protocol_version_name = PyStr (lit ''TLSv1.3'')\<rparr>"

definition example_conn :: protocol where
  "example_conn = connectionMade example_peer example_now"

text \<open>
  An application that answers \<^verbatim>\<open>20 text/gemini\<close>, yields one chunk and then fails.
\<close>

definition failing_app :: application where
  "failing_app environ =
     [CallWriteStatus 20 (lit ''text/gemini''), Yield (Bytes [104, 105]),
      Raise (ApplicationError 0)]"

text \<open>
  The same server when the client has presented a certificate, and the example
  connection once its request line has been parsed.
\<close>

definition tls_deps :: deps where
  "tls_deps = example_deps\<lparr>getPeerCertificate := Some (Certificate 1)\<rparr>"

definition parsed_conn :: protocol where
  "parsed_conn = example_conn\<lparr>request := example_url, url := Some (lit ''gemini://example.org/'')\<rparr>"

text \<open>An application that only answers \<^verbatim>\<open>51 Not found\<close>, with no body.\<close>

definition status_only_app :: application where
  "status_only_app environ = [CallWriteStatus 51 (lit ''Not found'')]"

section \<open>Facts about the codec\<close>

lemma encode_char_nonempty: "encode_char c = Some bs \<Longrightarrow> bs \<noteq> []"
  by (auto simp: encode_char_def split: if_splits)

lemma str_encode_empty_iff: "str_encode t = Some bs \<Longrightarrow> (bs = []) = (t = [])"
  by (cases t) (auto split: option.splits dest: encode_char_nonempty)

lemma str_encode_append:
  "str_encode (t @ u) =
     (case str_encode t of
        None \<Rightarrow> None
      | Some a \<Rightarrow> (case str_encode u of None \<Rightarrow> None | Some b \<Rightarrow> Some (a @ b)))"
  by (induction t) (auto split: option.splits)

lemma str_encode_ascii: "\<forall>c\<in>set t. c < 128 \<Longrightarrow> str_encode t = Some (map of_nat t)"
  by (induction t) (auto simp: encode_char_def)

lemma str_nat_digits: "c \<in> set (str_nat n) \<Longrightarrow> c < 128"
proof (induction n rule: str_nat.induct)
  case (1 n)
  then show ?case
    by (subst (asm) (2) str_nat.simps) (auto split: if_splits)
qed

lemma str_int_ascii: "c \<in> set (str_int i) \<Longrightarrow> c < 128"
  by (auto simp: str_int_def dest: str_nat_digits split: if_splits)

lemma str_encode_str_int: "str_encode (str_int i) = Some (map of_nat (str_int i))"
  by (rule str_encode_ascii) (auto dest: str_int_ascii)

lemma status_line_nonempty: "status_line st mt \<noteq> []"
  by (simp add: status_line_def)

text \<open>A status line has an encoding exactly when its meta has one.\<close>

lemma str_encode_status_line:
  "str_encode (status_line st mt) =
     (case str_encode mt of
        None \<Rightarrow> None
      | Some bs \<Rightarrow> Some (map of_nat (str_int st) @ [9] @ bs @ [13, 10]))"
  by (simp add: status_line_def str_encode_append str_encode_str_int encode_char_def
      split: option.splits)

lemma malformed_line:
  "str_encode (status_line st (lit ''Malformed request'')) =
     Some (map of_nat (str_int st)
           @ [9, 77, 97, 108, 102, 111, 114, 109, 101, 100, 32, 114, 101, 113, 117, 101, 115,
              116, 13, 10])"
  by (simp add: str_encode_status_line lit_def encode_char_def)

lemma cgi_error_line:
  "str_encode (status_line st (lit ''An unexpected error occurred'')) \<noteq> None"
  by (simp add: str_encode_status_line lit_def encode_char_def)

subsection \<open>Decoding and encoding again\<close>

text \<open>
  What \<^verbatim>\<open>decode()\<close> accepts, \<^verbatim>\<open>encode()\<close> gives back byte for byte: a decoded request
  line is the line itself, with nothing dropped or normalised.
\<close>

text \<open>
  What \<^verbatim>\<open>decode()\<close> accepts, \<^verbatim>\<open>encode()\<close> gives back byte for byte: a decoded request
  line is the line itself, with nothing dropped or normalised.
\<close>

lemma enc1: "a < 128 \<Longrightarrow> encode_char a = Some [of_nat a]"
  by (simp add: encode_char_def)

lemma divmod64: "r < 64 \<Longrightarrow> (q * 64 + r) div 64 = q \<and> (q * 64 + r) mod 64 = (r::nat)"
  by simp

lemma enc2:
  assumes "2 \<le> a" "a < 32" "r < 64"
  shows "encode_char (a * 64 + r) = Some [of_nat (0xC0 + a), of_nat (0x80 + r)]"
proof -
  have "(a * 64 + r) div 64 = a" "(a * 64 + r) mod 64 = r"
    using assms by simp_all
  moreover have "128 \<le> a * 64 + r" "a * 64 + r < 2048"
    using assms by simp_all
  ultimately show ?thesis
    by (simp add: encode_char_def)
qed

lemma enc3:
  assumes "a < 16" "r1 < 64" "r2 < 64"
    and "a = 0 \<Longrightarrow> 32 \<le> r1" and "a = 13 \<Longrightarrow> r1 < 32"
  shows "encode_char (a * 4096 + r1 * 64 + r2)
         = Some [of_nat (0xE0 + a), of_nat (0x80 + r1), of_nat (0x80 + r2)]"
proof -
  let ?c = "a * 4096 + r1 * 64 + r2"
  have c: "?c = (a * 64 + r1) * 64 + r2" by simp
  have d1: "?c div 64 = a * 64 + r1" and d2: "?c mod 64 = r2"
    unfolding c using divmod64 [OF assms(3), of "a * 64 + r1"] by blast+
  have "?c div 4096 = ?c div (64 * 64)" by simp
  also have "\<dots> = ?c div 64 div 64" by (rule div_mult2_eq)
  finally have d: "?c div 4096 = a" "?c div 64 mod 64 = r1" "?c mod 64 = r2"
    using d1 d2 divmod64 [OF assms(2), of a] by simp_all
  have lo: "2048 \<le> ?c" using assms(4) by (cases "a = 0") simp_all
  have hi: "?c < 65536" using assms(1-3) by simp
  have sur: "\<not> (55296 \<le> ?c \<and> ?c < 57344)"
    using assms by (cases "a = 13"; cases "a < 13") simp_all
  from d lo hi sur show ?thesis
    by (simp add: encode_char_def)
qed

lemma enc4:
  assumes "a < 5" "r1 < 64" "r2 < 64" "r3 < 64"
    and "a = 0 \<Longrightarrow> 16 \<le> r1" and "a = 4 \<Longrightarrow> r1 < 16"
  shows "encode_char (a * 262144 + r1 * 4096 + r2 * 64 + r3)
         = Some [of_nat (0xF0 + a), of_nat (0x80 + r1), of_nat (0x80 + r2), of_nat (0x80 + r3)]"
proof -
  let ?c = "a * 262144 + r1 * 4096 + r2 * 64 + r3"
  have c: "?c = ((a * 64 + r1) * 64 + r2) * 64 + r3" by simp
  have d1: "?c div 64 = (a * 64 + r1) * 64 + r2" and d2: "?c mod 64 = r3"
    unfolding c using divmod64 [OF assms(4), of "(a * 64 + r1) * 64 + r2"] by blast+
  have "?c div 4096 = ?c div (64 * 64)" by simp
  also have "\<dots> = ?c div 64 div 64" by (rule div_mult2_eq)
  finally have d3: "?c div 4096 = a * 64 + r1"
    using d1 divmod64 [OF assms(3), of "a * 64 + r1"] by simp
  have "?c div 262144 = ?c div (4096 * 64)" by simp
  also have "\<dots> = ?c div 4096 div 64" by (rule div_mult2_eq)
  finally have d: "?c div 262144 = a" "?c div 4096 mod 64 = r1" "?c div 64 mod 64 = r2"
      "?c mod 64 = r3"
    using d1 d2 d3 divmod64 [OF assms(2), of a] divmod64 [OF assms(3), of "a * 64 + r1"]
    by simp_all
  have lo: "65536 \<le> ?c" using assms(5) by (cases "a = 0") simp_all
  have hi: "?c < 1114112" using assms by (cases "a = 4") simp_all
  from d lo hi show ?thesis
    by (simp add: encode_char_def)
qed

lemma byte_back: "m \<le> unat b \<Longrightarrow> of_nat (m + (unat b - m)) = (b :: byte)"
  by simp

lemma decode_char_encode:
  assumes "decode_char b bs = Some (c, k)"
  shows "encode_char c = Some (b # take k bs)"
proof -
  let ?n = "unat b"
  consider (one) "?n < 0x80" | (bad) "0x80 \<le> ?n" "?n < 0xC2" | (two) "0xC2 \<le> ?n" "?n < 0xE0"
    | (three) "0xE0 \<le> ?n" "?n < 0xF0" | (four) "0xF0 \<le> ?n" "?n < 0xF5" | (high) "0xF5 \<le> ?n"
    by linarith
  then show ?thesis
  proof cases
    case one
    with assms have "c = ?n" "k = 0" by (simp_all add: decode_char_def)
    with one show ?thesis by (simp add: enc1)
  next
    case bad
    with assms show ?thesis by (simp add: decode_char_def)
  next
    case two
    with assms obtain b1 rest where bs: "bs = b1 # rest" and cont: "is_cont b1"
      and c: "c = (?n - 0xC0) * 64 + cont_bits b1" and k: "k = 1"
      by (auto simp: decode_char_def Let_def split: list.splits if_splits)
    from cont have r: "0x80 \<le> unat b1" "unat b1 - 0x80 < 64"
      by (auto simp: is_cont_def)
    from two have a: "2 \<le> ?n - 0xC0" "?n - 0xC0 < 32" "0xC0 \<le> ?n" by simp_all
    from enc2 [OF a(1,2) r(2)] byte_back [OF a(3)] byte_back [OF r(1)]
    show ?thesis by (simp add: c k bs cont_bits_def)
  next
    case three
    with assms obtain b1 b2 rest where bs: "bs = b1 # b2 # rest"
      and cont: "is_cont b1" "is_cont b2"
      and lo: "?n = 0xE0 \<Longrightarrow> 0xA0 \<le> unat b1" and hi: "?n = 0xED \<Longrightarrow> unat b1 < 0xA0"
      and c: "c = (?n - 0xE0) * 4096 + cont_bits b1 * 64 + cont_bits b2" and k: "k = 2"
      by (auto simp: decode_char_def Let_def split: list.splits if_splits)
    from cont have r: "0x80 \<le> unat b1" "unat b1 - 0x80 < 64" "0x80 \<le> unat b2"
        "unat b2 - 0x80 < 64"
      by (auto simp: is_cont_def)
    from three have a: "?n - 0xE0 < 16" "0xE0 \<le> ?n" by simp_all
    have lo': "32 \<le> unat b1 - 0x80" if "?n - 0xE0 = 0"
    proof -
      from that three have "?n = 0xE0" by simp
      from lo [OF this] show ?thesis by simp
    qed
    have hi': "unat b1 - 0x80 < 32" if "?n - 0xE0 = 13"
    proof -
      from that three have "?n = 0xED" by simp
      from hi [OF this] r(1) show ?thesis by simp
    qed
    from enc3 [OF a(1) r(2) r(4) lo' hi'] byte_back [OF a(2)] byte_back [OF r(1)]
      byte_back [OF r(3)]
    show ?thesis by (simp add: c k bs cont_bits_def)
  next
    case four
    with assms obtain b1 b2 b3 rest where bs: "bs = b1 # b2 # b3 # rest"
      and cont: "is_cont b1" "is_cont b2" "is_cont b3"
      and lo: "?n = 0xF0 \<Longrightarrow> 0x90 \<le> unat b1" and hi: "?n = 0xF4 \<Longrightarrow> unat b1 < 0x90"
      and c: "c = (?n - 0xF0) * 262144 + cont_bits b1 * 4096 + cont_bits b2 * 64 + cont_bits b3"
      and k: "k = 3"
      by (auto simp: decode_char_def Let_def split: list.splits if_splits)
    from cont have r: "0x80 \<le> unat b1" "unat b1 - 0x80 < 64" "0x80 \<le> unat b2"
        "unat b2 - 0x80 < 64" "0x80 \<le> unat b3" "unat b3 - 0x80 < 64"
      by (auto simp: is_cont_def)
    from four have a: "?n - 0xF0 < 5" "0xF0 \<le> ?n" by simp_all
    have lo': "16 \<le> unat b1 - 0x80" if "?n - 0xF0 = 0"
    proof -
      from that four have "?n = 0xF0" by simp
      from lo [OF this] show ?thesis by simp
    qed
    have hi': "unat b1 - 0x80 < 16" if "?n - 0xF0 = 4"
    proof -
      from that four have "?n = 0xF4" by simp
      from hi [OF this] r(1) show ?thesis by simp
    qed
    from enc4 [OF a(1) r(2) r(4) r(6) lo' hi'] byte_back [OF a(2)] byte_back [OF r(1)]
      byte_back [OF r(3)] byte_back [OF r(5)]
    show ?thesis by (simp add: c k bs cont_bits_def)
  next
    case high
    with assms show ?thesis by (simp add: decode_char_def)
  qed
qed

lemma bytes_decode_encode: "bytes_decode bs = Some t \<Longrightarrow> str_encode t = Some bs"
proof (induction bs arbitrary: t rule: bytes_decode.induct)
  case 1
  then show ?case by simp
next
  case (2 b bs)
  from "2.prems" obtain c k cs where d: "decode_char b bs = Some (c, k)"
    and rest: "bytes_decode (drop k bs) = Some cs" and t: "t = c # cs"
    by (auto split: option.splits)
  from "2.IH" [OF d refl rest] have "str_encode cs = Some (drop k bs)" .
  with decode_char_encode [OF d] t show ?case by simp
qed

text \<open>
  And the other way round: what \<^verbatim>\<open>encode()\<close> produces, \<^verbatim>\<open>decode()\<close> accepts and
  turns back into the same text. So the byte strings that decode are exactly the
  UTF-8 encodings of the strings that have one.
\<close>

lemma unat_byte: "n < 256 \<Longrightarrow> unat (of_nat n :: byte) = n"
  by (simp add: unat_of_nat)

lemma dec1: "c < 128 \<Longrightarrow> decode_char (of_nat c) rest = Some (c, 0)"
  by (simp add: decode_char_def unat_byte)

lemma dec2:
  assumes "2 \<le> a" "a < 32" "r < 64"
  shows "decode_char (of_nat (0xC0 + a)) (of_nat (0x80 + r) # rest) = Some (a * 64 + r, 1)"
proof -
  have "unat (of_nat (0xC0 + a) :: byte) = 0xC0 + a" "unat (of_nat (0x80 + r) :: byte) = 0x80 + r"
    by (rule unat_byte, use assms in simp)+
  with assms show ?thesis
    by (simp add: decode_char_def is_cont_def cont_bits_def)
qed

lemma dec3:
  assumes "a < 16" "r1 < 64" "r2 < 64"
    and "a = 0 \<Longrightarrow> 32 \<le> r1" and "a = 13 \<Longrightarrow> r1 < 32"
  shows "decode_char (of_nat (0xE0 + a)) (of_nat (0x80 + r1) # of_nat (0x80 + r2) # rest)
         = Some (a * 4096 + r1 * 64 + r2, 2)"
proof -
  have "unat (of_nat (0xE0 + a) :: byte) = 0xE0 + a" "unat (of_nat (0x80 + r1) :: byte) = 0x80 + r1"
    "unat (of_nat (0x80 + r2) :: byte) = 0x80 + r2"
    by (rule unat_byte, use assms(1-3) in simp)+
  with assms show ?thesis
    by (simp add: decode_char_def is_cont_def cont_bits_def)
qed

lemma dec4:
  assumes "a < 5" "r1 < 64" "r2 < 64" "r3 < 64"
    and "a = 0 \<Longrightarrow> 16 \<le> r1" and "a = 4 \<Longrightarrow> r1 < 16"
  shows "decode_char (of_nat (0xF0 + a))
           (of_nat (0x80 + r1) # of_nat (0x80 + r2) # of_nat (0x80 + r3) # rest)
         = Some (a * 262144 + r1 * 4096 + r2 * 64 + r3, 3)"
proof -
  have "unat (of_nat (0xF0 + a) :: byte) = 0xF0 + a" "unat (of_nat (0x80 + r1) :: byte) = 0x80 + r1"
    "unat (of_nat (0x80 + r2) :: byte) = 0x80 + r2" "unat (of_nat (0x80 + r3) :: byte) = 0x80 + r3"
    by (rule unat_byte, use assms(1-4) in simp)+
  with assms show ?thesis
    by (simp add: decode_char_def is_cont_def cont_bits_def)
qed

lemma split64: "\<exists>q r. c = q * 64 + r \<and> r < (64::nat)"
proof -
  have "c = (c div 64) * 64 + c mod 64" by simp
  moreover have "c mod 64 < 64" by simp
  ultimately show ?thesis by blast
qed

lemma encode_char_decode:
  assumes "encode_char c = Some bs"
  shows "\<exists>b bt. bs = b # bt \<and> decode_char b (bt @ rest) = Some (c, length bt)"
proof -
  consider (one) "c < 0x80" | (two) "0x80 \<le> c" "c < 0x800"
    | (three) "0x800 \<le> c" "c < 0x10000" "\<not> (0xD800 \<le> c \<and> c < 0xE000)"
    | (four) "0x10000 \<le> c" "c < 0x110000"
    | (none) "0xD800 \<le> c \<and> c < 0xE000" | (big) "0x110000 \<le> c"
    by linarith
  then show ?thesis
  proof cases
    case one
    with assms have "bs = [of_nat c]" by (simp add: encode_char_def)
    with dec1 [OF one, of rest] show ?thesis by simp
  next
    case two
    from split64 [of c] obtain a r where c: "c = a * 64 + r" and r: "r < 64" by blast
    with two have a: "2 \<le> a" "a < 32" by simp_all
    from enc2 [OF a r] assms c have "bs = [of_nat (0xC0 + a), of_nat (0x80 + r)]" by simp
    with dec2 [OF a r, of rest] c show ?thesis by simp
  next
    case three
    from split64 [of c] obtain q r2 where c: "c = q * 64 + r2" and r2: "r2 < 64" by blast
    from split64 [of q] obtain a r1 where q: "q = a * 64 + r1" and r1: "r1 < 64" by blast
    from c q have c': "c = a * 4096 + r1 * 64 + r2" by simp
    with three r1 r2 have a: "a < 16" by simp
    have lo: "32 \<le> r1" if "a = 0" using that three(1) c' r2 by simp
    have hi: "r1 < 32" if "a = 13" using that three c' r1 r2 by simp
    from enc3 [OF a r1 r2 lo hi] assms c'
    have "bs = [of_nat (0xE0 + a), of_nat (0x80 + r1), of_nat (0x80 + r2)]" by simp
    with dec3 [OF a r1 r2 lo hi, of rest] c' show ?thesis by simp
  next
    case four
    from split64 [of c] obtain q r3 where c: "c = q * 64 + r3" and r3: "r3 < 64" by blast
    from split64 [of q] obtain p r2 where q: "q = p * 64 + r2" and r2: "r2 < 64" by blast
    from split64 [of p] obtain a r1 where p: "p = a * 64 + r1" and r1: "r1 < 64" by blast
    from c q p have c': "c = a * 262144 + r1 * 4096 + r2 * 64 + r3" by simp
    with four r1 r2 r3 have a: "a < 5" by simp
    have lo: "16 \<le> r1" if "a = 0" using that four(1) c' r2 r3 by simp
    have hi: "r1 < 16" if "a = 4" using that four c' r1 r2 r3 by simp
    from enc4 [OF a r1 r2 r3 lo hi] assms c'
    have "bs = [of_nat (0xF0 + a), of_nat (0x80 + r1), of_nat (0x80 + r2), of_nat (0x80 + r3)]"
      by simp
    with dec4 [OF a r1 r2 r3 lo hi, of rest] c' show ?thesis by simp
  next
    case none
    with assms show ?thesis by (simp add: encode_char_def)
  next
    case big
    with assms show ?thesis by (simp add: encode_char_def)
  qed
qed

lemma str_encode_decode: "str_encode t = Some bs \<Longrightarrow> bytes_decode bs = Some t"
proof (induction t arbitrary: bs)
  case Nil
  then show ?case by simp
next
  case (Cons c cs)
  then obtain b rest where b: "encode_char c = Some b" and rest: "str_encode cs = Some rest"
    and bs: "bs = b @ rest"
    by (auto split: option.splits)
  from encode_char_decode [OF b, of rest] obtain b0 bt where "b = b0 # bt"
    "decode_char b0 (bt @ rest) = Some (c, length bt)" by blast
  with Cons.IH [OF rest] bs show ?case by simp
qed

lemma bytes_decode_iff: "bytes_decode bs = Some t \<longleftrightarrow> str_encode t = Some bs"
  using bytes_decode_encode str_encode_decode by blast

section \<open>Facts about the response writer\<close>

lemma written_append: "written (es @ fs) = written es @ written fs"
  by (induction es rule: written.induct) auto

lemma written_map_Write: "written (map Write bs) = bs"
  by (induction bs) auto

text \<open>Once a byte has been counted, a flush only clears the buffer.\<close>

lemma flush_status_sent:
  "0 < response_size s \<Longrightarrow> flush_status s = Inr (s\<lparr>response_buffer := []\<rparr>)"
  by (simp add: flush_status_def)

lemma write_body_sent:
  "0 < response_size s \<Longrightarrow> payload d = Some bs \<Longrightarrow>
   write_body d s =
     Inr (s\<lparr>response_size := response_size s + length bs,
           effects := effects s @ [Write bs], response_buffer := []\<rparr>)"
  by (simp add: write_body_def flush_status_sent transport_write_def)

text \<open>
  After the first counted byte, every later call succeeds when its chunk has an
  encoding, and the transport sees the body chunks and nothing else.
\<close>

lemma calls_sent:
  "0 < response_size s \<Longrightarrow> bodies cs = Some bs \<Longrightarrow>
   \<exists>s'. calls cs s = Inr s' \<and> effects s' = effects s @ map Write bs
        \<and> response_size s' = response_size s + sum_list (map length bs)"
proof (induction cs arbitrary: s bs)
  case Nil
  then show ?case by simp
next
  case (Cons c cs)
  show ?case
  proof (cases c)
    case (WriteStatus st mt)
    with Cons.prems have "bodies cs = Some bs" by simp
    moreover have "0 < response_size (write_status st mt s)"
      using Cons.prems by (simp add: write_status_def)
    ultimately show ?thesis
      using Cons.IH [of "write_status st mt s" bs] WriteStatus
      by (simp add: write_status_def)
  next
    case (WriteBody d)
    with Cons.prems obtain b rest where b: "payload d = Some b"
      and rest: "bodies cs = Some rest" and bs: "bs = b # rest"
      by (auto split: option.splits)
    let ?s1 = "s\<lparr>response_size := response_size s + length b,
                 effects := effects s @ [Write b], response_buffer := []\<rparr>"
    have "write_body d s = Inr ?s1"
      using Cons.prems b by (simp add: write_body_sent)
    moreover have "0 < response_size ?s1" using Cons.prems by simp
    from Cons.IH [OF this rest] obtain s' where "calls cs ?s1 = Inr s'"
      and "effects s' = effects ?s1 @ map Write rest"
      and "response_size s' = response_size ?s1 + sum_list (map length rest)"
      by blast
    ultimately show ?thesis
      using WriteBody bs by simp
  next
    case FlushStatus
    with Cons.prems have "bodies cs = Some bs" by simp
    then show ?thesis
      using Cons.IH [of "s\<lparr>response_buffer := []\<rparr>" bs] Cons.prems FlushStatus
      by (simp add: flush_status_sent)
  qed
qed

lemma calls_status_prefix:
  "\<forall>c\<in>set pre. is_WriteStatus c \<Longrightarrow>
   \<exists>s1. calls (pre @ cs) s = calls cs s1 \<and> response_size s1 = response_size s
        \<and> effects s1 = effects s"
proof (induction pre arbitrary: s)
  case Nil
  then show ?case by auto
next
  case (Cons c pre)
  then obtain st mt where c: "c = WriteStatus st mt"
    by (cases c) auto
  from Cons.prems have "\<forall>c\<in>set pre. is_WriteStatus c" by simp
  from Cons.IH [OF this, of "write_status st mt s"] show ?case
    using c by (auto simp: write_status_def)
qed

lemma bodies_without_status:
  "bodies (filter (\<lambda>c. \<not> is_WriteStatus c) cs) = bodies cs"
  by (induction cs rule: bodies.induct) (auto split: option.splits)

text \<open>The first chunk after a status call on a silent connection.\<close>

lemma first_body_commits:
  assumes fresh: "response_size s = 0"
    and line: "str_encode (status_line st mt) = Some line"
    and b: "payload d = Some b"
  shows "write_body d (write_status st mt s) =
           Inr (s\<lparr>status := Some st, meta := Some mt, response_buffer := [],
                 response_size := length line + length b,
                 effects := effects s @ [Write line, Write b]\<rparr>)"
  using assms
  by (simp add: write_body_def write_status_def flush_status_def transport_write_def
      status_line_nonempty)

lemma status_then_body:
  assumes fresh: "response_size s = 0"
    and line: "str_encode (status_line st mt) = Some line"
    and bs: "bodies (WriteBody d # rest) = Some bs"
  shows "\<exists>s'. calls (WriteStatus st mt # WriteBody d # rest) s = Inr s'
           \<and> effects s' = effects s @ Write line # map Write bs"
proof -
  from bs obtain b bs' where b: "payload d = Some b" and bs': "bodies rest = Some bs'"
    and eq: "bs = b # bs'"
    by (auto split: option.splits)
  let ?s1 = "s\<lparr>status := Some st, meta := Some mt, response_buffer := [],
                 response_size := length line + length b,
                 effects := effects s @ [Write line, Write b]\<rparr>"
  have step: "write_body d (write_status st mt s) = Inr ?s1"
    by (rule first_body_commits [OF fresh line b])
  from line have "line \<noteq> []"
    using str_encode_empty_iff [of "status_line st mt" line] status_line_nonempty by simp
  then have "0 < response_size ?s1" by simp
  from calls_sent [OF this bs'] obtain s' where "calls rest ?s1 = Inr s'"
    and "effects s' = effects ?s1 @ map Write bs'" by blast
  with step eq show ?thesis by simp
qed

lemma flush_status_cases:
  assumes "flush_status s = Inr s1" and "response_size s = 0"
  shows "(response_buffer s = [] \<and> s1 = s)
       \<or> (\<exists>line. response_buffer s \<noteq> [] \<and> str_encode (response_buffer s) = Some line \<and> line \<noteq> []
            \<and> s1 = s\<lparr>response_size := length line, effects := effects s @ [Write line],
                      response_buffer := []\<rparr>)"
  using assms str_encode_empty_iff [of "response_buffer s"]
  by (auto simp: flush_status_def transport_write_def split: if_splits option.splits)

lemma flush_after_status:
  assumes "flush_status (write_status st mt s) = Inr s1" and "response_size s = 0"
  shows "\<exists>line. str_encode (status_line st mt) = Some line \<and> line \<noteq> []
           \<and> effects s1 = effects s @ [Write line] \<and> response_size s1 = length line"
proof -
  from assms obtain line where line: "str_encode (status_line st mt) = Some line"
    and s1: "effects s1 = effects s @ [Write line]" "response_size s1 = length line"
    by (auto simp: flush_status_def write_status_def transport_write_def status_line_nonempty
        split: option.splits)
  from line have "line \<noteq> []"
    using str_encode_empty_iff [of "status_line st mt" line] status_line_nonempty by simp
  with line s1 show ?thesis by blast
qed

lemma calls_bodies: "calls cs s = Inr s' \<Longrightarrow> \<exists>bs. bodies cs = Some bs"
proof (induction cs arbitrary: s)
  case Nil
  then show ?case by simp
next
  case (Cons c cs)
  then show ?case
    by (cases c) (auto simp: write_body_def split: sum.splits option.splits)
qed

lemma calls_silent:
  assumes "calls cs s = Inr s'" and "response_size s = 0"
  shows "\<exists>line bs. bodies cs = Some bs
           \<and> concat (written (effects s')) = concat (written (effects s)) @ line @ concat bs
           \<and> response_size s' = length line + sum_list (map length bs)
           \<and> (line = [] \<or> str_encode (response_buffer s) = Some line
                \<or> (\<exists>st mt. WriteStatus st mt \<in> set cs \<and> str_encode (status_line st mt) = Some line))"
  using assms
proof (induction cs arbitrary: s)
  case Nil
  then show ?case by auto
next
  case (Cons c cs)
  show ?case
  proof (cases c)
    case (WriteStatus st mt)
    with Cons.prems have run: "calls cs (write_status st mt s) = Inr s'" by simp
    have "response_size (write_status st mt s) = 0"
      using Cons.prems by (simp add: write_status_def)
    from Cons.IH [OF run this] obtain line bs where "bodies cs = Some bs"
      "concat (written (effects s')) = concat (written (effects (write_status st mt s))) @ line @ concat bs"
      "response_size s' = length line + sum_list (map length bs)"
      "line = [] \<or> str_encode (response_buffer (write_status st mt s)) = Some line
         \<or> (\<exists>st mt. WriteStatus st mt \<in> set cs \<and> str_encode (status_line st mt) = Some line)"
      by blast
    then show ?thesis
      using WriteStatus
      by (intro exI [of _ line] exI [of _ bs]) (auto simp: write_status_def)
  next
    case FlushStatus
    with Cons.prems obtain s1 where fl: "flush_status s = Inr s1" and run: "calls cs s1 = Inr s'"
      by (auto split: sum.splits)
    from flush_status_cases [OF fl] Cons.prems(2)
    consider (idle) "response_buffer s = []" "s1 = s"
      | (flushed) line where "str_encode (response_buffer s) = Some line" "line \<noteq> []"
          "s1 = s\<lparr>response_size := length line, effects := effects s @ [Write line],
                      response_buffer := []\<rparr>"
      by blast
    then show ?thesis
    proof cases
      case idle
      with Cons.IH [of s] run Cons.prems(2) FlushStatus show ?thesis
        by auto
    next
      case flushed
      from run obtain bs where bs: "bodies cs = Some bs"
        using calls_bodies by blast
      from flushed have "0 < response_size s1" by simp
      from calls_sent [OF this bs] run have "effects s' = effects s1 @ map Write bs"
        "response_size s' = response_size s1 + sum_list (map length bs)"
        by auto
      with flushed bs FlushStatus show ?thesis
        by (intro exI [of _ line] exI [of _ bs]) (simp add: written_append written_map_Write)
    qed
  next
    case (WriteBody d)
    with Cons.prems obtain b s0 s1 where b: "payload d = Some b" and fl: "flush_status s = Inr s0"
      and s1: "s1 = transport_write b (s0\<lparr>response_size := response_size s0 + length b\<rparr>)"
      and run: "calls cs s1 = Inr s'"
      by (auto simp: write_body_def split: sum.splits option.splits)
    from run obtain bs where bs: "bodies cs = Some bs"
      using calls_bodies by blast
    from flush_status_cases [OF fl] Cons.prems(2)
    consider (idle) "response_buffer s = []" "s0 = s"
      | (flushed) line where "str_encode (response_buffer s) = Some line" "line \<noteq> []"
          "s0 = s\<lparr>response_size := length line, effects := effects s @ [Write line],
                      response_buffer := []\<rparr>"
      by blast
    then show ?thesis
    proof cases
      case flushed
      with s1 have "0 < response_size s1" by (simp add: transport_write_def)
      from calls_sent [OF this bs] run have "effects s' = effects s1 @ map Write bs"
        "response_size s' = response_size s1 + sum_list (map length bs)"
        by auto
      with flushed bs b s1 WriteBody show ?thesis
        by (intro exI [of _ line] exI [of _ "b # bs"])
          (simp add: written_append written_map_Write transport_write_def)
    next
      case idle
      show ?thesis
      proof (cases "b = []")
        case True
        with idle s1 Cons.prems(2) have size1: "response_size s1 = 0"
          and buf1: "response_buffer s1 = []" and eff1: "effects s1 = effects s @ [Write []]"
          by (simp_all add: transport_write_def)
        from Cons.IH [OF run size1] obtain line bs' where "bodies cs = Some bs'"
          "concat (written (effects s')) = concat (written (effects s1)) @ line @ concat bs'"
          "response_size s' = length line + sum_list (map length bs')"
          "line = [] \<or> str_encode (response_buffer s1) = Some line
             \<or> (\<exists>st mt. WriteStatus st mt \<in> set cs \<and> str_encode (status_line st mt) = Some line)"
          by blast
        with True b buf1 eff1 WriteBody show ?thesis
          by (intro exI [of _ line] exI [of _ "b # bs'"]) (auto simp: written_append)
      next
        case False
        with idle s1 have "0 < response_size s1" by (simp add: transport_write_def)
        from calls_sent [OF this bs] run have "effects s' = effects s1 @ map Write bs"
          "response_size s' = response_size s1 + sum_list (map length bs)"
          by auto
          with idle bs b s1 WriteBody Cons.prems(2) show ?thesis
          by (intro exI [of _ "[]"] exI [of _ "b # bs"])
            (simp add: written_append written_map_Write transport_write_def)
      qed
    qed
  qed
qed

lemma flush_status_size: "flush_status s = Inr s1 \<Longrightarrow> response_size s \<le> response_size s1"
  by (auto simp: flush_status_def transport_write_def split: if_splits option.splits)

lemma write_body_size: "write_body d s = Inr s1 \<Longrightarrow> response_size s \<le> response_size s1"
  by (auto simp: write_body_def transport_write_def split: sum.splits option.splits
      dest: flush_status_size)

lemma calls_size: "calls cs s = Inr s' \<Longrightarrow> response_size s \<le> response_size s'"
proof (induction cs arbitrary: s)
  case Nil
  then show ?case by simp
next
  case (Cons c cs)
  show ?case
  proof (cases c)
    case (WriteStatus st mt)
    with Cons.prems Cons.IH [of "write_status st mt s"] show ?thesis
      by (simp add: write_status_def)
  next
    case (WriteBody d)
    with Cons.prems obtain s1 where "write_body d s = Inr s1" "calls cs s1 = Inr s'"
      by (auto split: sum.splits)
    with Cons.IH [of s1] write_body_size [of d s s1] show ?thesis by simp
  next
    case FlushStatus
    with Cons.prems obtain s1 where "flush_status s = Inr s1" "calls cs s1 = Inr s'"
      by (auto split: sum.splits)
    with Cons.IH [of s1] flush_status_size [of s s1] show ?thesis by simp
  qed
qed

subsection \<open>What the writer leaves alone\<close>

text \<open>
  \<^verbatim>\<open>flush_status\<close> and \<^verbatim>\<open>write_body\<close> only write to the transport; they never touch
  \<^verbatim>\<open>url\<close>, \<^verbatim>\<open>status\<close>, \<^verbatim>\<open>meta\<close>, the peer or the connection time.
\<close>

text \<open>
  What \<^verbatim>\<open>flush_status\<close>, \<^verbatim>\<open>write_body\<close> and the loop over the application leave
  alone: they only write to the transport, and never touch \<^verbatim>\<open>url\<close>, the peer or the
  connection time.
\<close>

lemma flush_status_returns:
  "str_encode (response_buffer s) \<noteq> None \<Longrightarrow> \<exists>s1. flush_status s = Inr s1"
  by (auto simp: flush_status_def)

lemma flush_status_frame:
  assumes "flush_status s = Inr s1"
  shows "(\<exists>ws. effects s1 = effects s @ map Write ws) \<and> response_buffer s1 = []
       \<and> url s1 = url s \<and> status s1 = status s \<and> meta s1 = meta s
       \<and> client_addr s1 = client_addr s \<and> connected_timestamp s1 = connected_timestamp s"
proof (cases "response_buffer s \<noteq> [] \<and> response_size s = 0")
  case True
  with assms obtain line where
    "s1 = s\<lparr>response_size := length line, effects := effects s @ map Write [line],
            response_buffer := []\<rparr>"
    by (auto simp: flush_status_def transport_write_def split: option.splits)
  then show ?thesis by (simp del: list.map) blast
next
  case False
  with assms have "s1 = s\<lparr>response_buffer := []\<rparr>"
    by (auto simp: flush_status_def)
  then have "effects s1 = effects s @ map Write []" by simp
  with \<open>s1 = s\<lparr>response_buffer := []\<rparr>\<close> show ?thesis by (simp del: list.map) 
qed

lemma write_body_frame:
  assumes "write_body d s = Inr s1"
  shows "(\<exists>ws. effects s1 = effects s @ map Write ws) \<and> response_buffer s1 = []
       \<and> url s1 = url s \<and> status s1 = status s \<and> meta s1 = meta s
       \<and> client_addr s1 = client_addr s \<and> connected_timestamp s1 = connected_timestamp s"
proof -
  from assms obtain b s0 where b: "payload d = Some b" and fl: "flush_status s = Inr s0"
    and s1: "s1 = transport_write b (s0\<lparr>response_size := response_size s0 + length b\<rparr>)"
    by (auto simp: write_body_def split: sum.splits option.splits)
  from flush_status_frame [OF fl] obtain ws where ws: "effects s0 = effects s @ map Write ws"
    and rest: "response_buffer s0 = []" "url s0 = url s" "status s0 = status s"
      "meta s0 = meta s" "client_addr s0 = client_addr s"
      "connected_timestamp s0 = connected_timestamp s"
    by blast
  from s1 ws have "effects s1 = effects s @ map Write (ws @ [b])"
    by (simp add: transport_write_def)
  then have "\<exists>ws. effects s1 = effects s @ map Write ws" ..
  with s1 rest show ?thesis by (simp add: transport_write_def)
qed

lemma calls_frame:
  assumes "calls cs s = Inr s'"
  shows "url s' = url s \<and> client_addr s' = client_addr s
       \<and> connected_timestamp s' = connected_timestamp s
       \<and> ((\<forall>c\<in>set cs. \<not> is_WriteStatus c) \<longrightarrow> status s' = status s \<and> meta s' = meta s)"
  using assms
proof (induction cs arbitrary: s)
  case Nil
  then show ?case by simp
next
  case (Cons c cs)
  show ?case
  proof (cases c)
    case (WriteStatus st mt)
    with Cons.prems Cons.IH [of "write_status st mt s"] show ?thesis
      by (simp add: write_status_def)
  next
    case (WriteBody d)
    with Cons.prems obtain s1 where step: "write_body d s = Inr s1" and run: "calls cs s1 = Inr s'"
      by (auto split: sum.splits)
    from write_body_frame [OF step] Cons.IH [OF run] WriteBody show ?thesis by simp
  next
    case FlushStatus
    with Cons.prems obtain s1 where step: "flush_status s = Inr s1" and run: "calls cs s1 = Inr s'"
      by (auto split: sum.splits)
    from flush_status_frame [OF step] Cons.IH [OF run] FlushStatus show ?thesis by simp
  qed
qed

section \<open>Facts about the connection handler\<close>

lemma handle_request_malformed:
  assumes parse: "parse_header s = Inl e" and fresh: "response_size s = 0"
  shows "\<exists>s'. handle_request w app s = (Some e, s')
           \<and> effects s' = effects s @
               [LogMessage (Traceback e),
                Write (map of_nat (str_int (BAD_REQUEST w))
                       @ [9, 77, 97, 108, 102, 111, 114, 109, 101, 100, 32, 114, 101, 113, 117,
                          101, 115, 116, 13, 10]),
                LoseConnection]"
  using assms malformed_line [of "BAD_REQUEST w"]
  by (simp add: handle_request_def Let_def write_status_def log_message_def flush_status_def
      transport_write_def loseConnection_def status_line_nonempty)

subsection \<open>The run of an application\<close>

lemma performed_kinds: "performed p = p \<Longrightarrow> a \<in> set p \<Longrightarrow> is_status a \<or> (\<exists>d b. a = Yield d \<and> payload d = Some b)"
proof (induction p rule: performed.induct)
  case 1
  then show ?case by simp
next
  case (2 st mt as)
  then show ?case by auto
next
  case (3 d as)
  then show ?case by (auto split: if_splits)
next
  case (4 e as)
  then show ?case by simp
qed

lemma performed_Cons: "performed (a # p) = a # p \<Longrightarrow> performed p = p"
  by (cases a) (auto split: if_splits)

lemma performed_suffix: "performed (xs @ ys) = xs @ ys \<Longrightarrow> performed ys = ys"
  by (induction xs) (auto dest: performed_Cons)

lemma performed_idem: "performed (performed as) = performed as"
  by (induction as rule: performed.induct) auto

lemma outcome_performed: "outcome (performed as) = None"
  by (induction as rule: performed.induct) auto

lemma statuses_empty_iff: "(statuses p = []) = (\<forall>a\<in>set p. \<not> is_status a)"
  by (induction p rule: statuses.induct) auto

lemma statuses_last: "p \<noteq> [] \<Longrightarrow> is_status (last p) \<Longrightarrow> statuses p \<noteq> []"
  using statuses_empty_iff [of p] last_in_set [of p] by auto

lemma statuses_append: "statuses (xs @ ys) = statuses xs @ statuses ys"
  by (induction xs rule: statuses.induct) auto

lemma chunks_append: "chunks (xs @ ys) = chunks xs @ chunks ys"
  by (induction xs rule: chunks.induct) (auto split: option.splits)

lemma statuses_performed_subset:
  "CallWriteStatus st mt \<in> set (performed as) \<Longrightarrow> CallWriteStatus st mt \<in> set as"
  by (induction as rule: performed.induct) (auto split: if_splits)

text \<open>The run of an application is what it performs, and then how it ends.\<close>

lemma respond_performed:
  assumes "\<forall>st mt. CallWriteStatus st mt \<in> set as \<longrightarrow> str_encode mt \<noteq> None"
    and "str_encode (response_buffer s) \<noteq> None"
  shows "\<exists>s1. respond (performed as) s = (None, s1) \<and> respond as s = (outcome as, s1)"
  using assms
proof (induction as arbitrary: s)
  case Nil
  then show ?case by simp
next
  case (Cons a as)
  from Cons.prems(1)
  have rest: "\<forall>st mt. CallWriteStatus st mt \<in> set as \<longrightarrow> str_encode mt \<noteq> None"
    by simp
  show ?case
  proof (cases a)
    case (CallWriteStatus st mt)
    with Cons.prems(1) have "str_encode mt \<noteq> None" by simp
    then have "str_encode (response_buffer (write_status st mt s)) \<noteq> None"
      by (auto simp: write_status_def str_encode_status_line)
    from Cons.IH [OF rest this] CallWriteStatus show ?thesis by simp
  next
    case (Yield d)
    show ?thesis
    proof (cases "payload d")
      case None
      with Yield show ?thesis by (simp add: write_body_def)
    next
      case (Some b)
      from flush_status_returns [OF Cons.prems(2)] obtain s0 where "flush_status s = Inr s0"
        by blast
      with Some obtain s1 where step: "write_body d s = Inr s1"
        by (simp add: write_body_def)
      from write_body_frame [OF step] have "str_encode (response_buffer s1) \<noteq> None" by simp
      from Cons.IH [OF rest this] Yield Some step show ?thesis by simp
    qed
  next
    case (Raise e)
    then show ?thesis by simp
  qed
qed

text \<open>Where \<^verbatim>\<open>status\<close>, \<^verbatim>\<open>meta\<close> and the buffer stand after a run without failure.\<close>

lemma respond_fields:
  assumes "performed p = p"
    and "respond p s = (None, s1)"
  shows "status s1 = (if statuses p = [] then status s else Some (fst (last (statuses p))))
       \<and> meta s1 = (if statuses p = [] then meta s else Some (snd (last (statuses p))))
       \<and> response_buffer s1 =
           (if p = [] then response_buffer s
            else if is_status (last p)
              then status_line (fst (last (statuses p))) (snd (last (statuses p)))
              else [])
       \<and> url s1 = url s \<and> client_addr s1 = client_addr s
       \<and> connected_timestamp s1 = connected_timestamp s"
  using assms
proof (induction p arbitrary: s)
  case Nil
  then show ?case by simp
next
  case (Cons a p)
  from Cons.prems(1) have p: "performed p = p" by (rule performed_Cons)
  show ?case
  proof (cases a)
    case (CallWriteStatus st mt)
    with Cons.prems(2) have run: "respond p (write_status st mt s) = (None, s1)" by simp
    from Cons.IH [OF p run] CallWriteStatus statuses_last [of p] show ?thesis
      by (cases "p = []") (auto simp: write_status_def)
  next
    case (Yield d)
    with Cons.prems(2) obtain s0 where step: "write_body d s = Inr s0"
      and run: "respond p s0 = (None, s1)"
      by (auto split: sum.splits)
    from Cons.IH [OF p run] write_body_frame [OF step] Yield show ?thesis
      by (cases "p = []") auto
  next
    case (Raise e)
    with Cons.prems(1) show ?thesis by simp
  qed
qed

text \<open>Once a byte has been counted the loop only writes the chunks.\<close>

lemma respond_sent:
  assumes "performed p = p" and "0 < response_size s"
  shows "\<exists>s1. respond p s = (None, s1)
           \<and> effects s1 = effects s @ map Write (chunks p)
           \<and> response_size s1 = response_size s + length (concat (chunks p))"
  using assms
proof (induction p arbitrary: s)
  case Nil
  then show ?case by simp
next
  case (Cons a p)
  from Cons.prems(1) have p: "performed p = p" by (rule performed_Cons)
  show ?case
  proof (cases a)
    case (CallWriteStatus st mt)
    have "0 < response_size (write_status st mt s)"
      using Cons.prems(2) by (simp add: write_status_def)
    from Cons.IH [OF p this] CallWriteStatus show ?thesis
      by (simp add: write_status_def)
  next
    case (Yield d)
    with Cons.prems(1) obtain b where b: "payload d = Some b"
      by (auto split: if_splits)
    let ?s0 = "s\<lparr>response_size := response_size s + length b,
                 effects := effects s @ [Write b], response_buffer := []\<rparr>"
    have step: "write_body d s = Inr ?s0"
      using Cons.prems(2) b by (simp add: write_body_sent)
    have "0 < response_size ?s0" using Cons.prems(2) by simp
    from Cons.IH [OF p this] obtain s1 where "respond p ?s0 = (None, s1)"
      "effects s1 = effects ?s0 @ map Write (chunks p)"
      "response_size s1 = response_size ?s0 + length (concat (chunks p))"
      by blast
    with step Yield b show ?thesis by simp
  next
    case (Raise e)
    with Cons.prems(1) show ?thesis by simp
  qed
qed

text \<open>Chunks before any status call go out as they are.\<close>

lemma respond_lead:
  assumes "\<forall>a\<in>set lead. is_yield a" and "performed lead = lead" and "response_buffer s = []"
  shows "respond (lead @ q) s =
           respond q (s\<lparr>response_buffer := [],
                        response_size := response_size s + length (concat (chunks lead)),
                        effects := effects s @ map Write (chunks lead)\<rparr>)"
  using assms
proof (induction lead arbitrary: s)
  case Nil
  then have "s\<lparr>response_buffer := [], response_size := response_size s, effects := effects s\<rparr> = s"
    by simp
  then show ?case by simp
next
  case (Cons a lead)
  from Cons.prems(2) have p: "performed lead = lead" by (rule performed_Cons)
  from Cons.prems(1) obtain d where a: "a = Yield d" by (cases a) auto
  with Cons.prems(2) obtain b where b: "payload d = Some b" by (auto split: if_splits)
  let ?s0 = "s\<lparr>response_buffer := [], response_size := response_size s + length b,
               effects := effects s @ [Write b]\<rparr>"
  have step: "write_body d s = Inr ?s0"
    using b Cons.prems(3) by (simp add: write_body_def flush_status_def transport_write_def)
  have "\<forall>a\<in>set lead. is_yield a" using Cons.prems(1) by simp
  from Cons.IH [OF this p, of ?s0] step a b show ?case
    by (simp add: add.assoc)
qed

text \<open>A block of status calls leaves the last of them pending.\<close>

lemma respond_block:
  assumes "block \<noteq> []" and "\<forall>a\<in>set block. is_status a"
  shows "respond (block @ q) s =
           respond q (write_status (fst (last (statuses block))) (snd (last (statuses block))) s)"
  using assms
proof (induction block arbitrary: s rule: list_nonempty_induct)
  case (single a)
  then obtain st mt where "a = CallWriteStatus st mt" by (cases a) auto
  then show ?case by simp
next
  case (cons a block)
  then obtain st mt where a: "a = CallWriteStatus st mt" by (cases a) auto
  from cons.hyps obtain a' block' where "block = a' # block'" by (cases block) auto
  with cons.prems have "statuses block \<noteq> []" by (cases a') auto
  moreover from cons.prems have "\<forall>a\<in>set block. is_status a" by simp
  ultimately show ?case
    using cons.IH [of "write_status st mt s"] a
    by (simp add: write_status_def)
qed

lemma line_bytes_encodes:
  "str_encode (snd sm) \<noteq> None \<Longrightarrow>
   str_encode (status_line (fst sm) (snd sm)) = Some (line_bytes sm)"
  by (auto simp: line_bytes_def str_encode_status_line)

lemma line_bytes_nonempty: "str_encode (snd sm) \<noteq> None \<Longrightarrow> line_bytes sm \<noteq> []"
  using line_bytes_encodes [of sm] str_encode_empty_iff [of "status_line (fst sm) (snd sm)"]
    status_line_nonempty by auto

lemma last_statuses_encodable:
  assumes "\<forall>st mt. CallWriteStatus st mt \<in> set p \<longrightarrow> str_encode mt \<noteq> None"
    and "statuses p \<noteq> []"
  shows "str_encode (snd (last (statuses p))) \<noteq> None"
proof -
  have "(st, mt) \<in> set (statuses p) \<Longrightarrow> CallWriteStatus st mt \<in> set p" for st mt
    by (induction p rule: statuses.induct) auto
  moreover from assms(2) have "last (statuses p) \<in> set (statuses p)" by simp
  ultimately have "CallWriteStatus (fst (last (statuses p))) (snd (last (statuses p))) \<in> set p"
    by (cases "last (statuses p)") auto
  with assms(1) show ?thesis by blast
qed

text \<open>What the loop over a run without failure writes on a silent connection.\<close>

lemma respond_streamed:
  assumes p: "performed p = p"
    and ok: "\<forall>st mt. CallWriteStatus st mt \<in> set p \<longrightarrow> str_encode mt \<noteq> None"
    and buffer: "response_buffer s = []" and size: "response_size s = 0"
  shows "\<exists>s1. respond p s = (None, s1)
           \<and> effects s1 = effects s @ map Write (streamed p)
           \<and> response_size s1 = length (concat (streamed p))"
proof -
  define lead where "lead = takeWhile is_yield p"
  define rest where "rest = dropWhile is_yield p"
  define block where "block = takeWhile is_status rest"
  define tail where "tail = dropWhile is_status rest"
  have split: "p = lead @ rest" "rest = block @ tail"
    by (simp_all add: lead_def rest_def block_def tail_def)
  have streamed: "streamed p = chunks lead
         @ (if concat (chunks lead) = [] \<and> block \<noteq> [] \<and> tail \<noteq> []
            then [line_bytes (last (statuses block))] else [])
         @ chunks tail"
    by (simp add: streamed_def Let_def lead_def rest_def block_def tail_def)
  have lead_yields: "\<forall>a\<in>set lead. is_yield a"
    by (auto simp: lead_def dest: set_takeWhileD)
  have block_statuses: "\<forall>a\<in>set block. is_status a"
    by (auto simp: block_def dest: set_takeWhileD)
  have lead_p: "performed lead = lead"
  proof -
    have "performed (lead @ q) = lead @ q \<Longrightarrow> performed lead = lead" for q
      by (induction lead) (auto dest: performed_Cons split: if_splits, (case_tac a; auto split: if_splits)+)
    with p split show ?thesis by metis
  qed
  have rest_p: "performed rest = rest" and tail_p: "performed tail = tail"
    using p split performed_suffix by metis+
  let ?sa = "s\<lparr>response_buffer := [],
               response_size := response_size s + length (concat (chunks lead)),
               effects := effects s @ map Write (chunks lead)\<rparr>"
  have run_a: "respond p s = respond rest ?sa"
    using respond_lead [OF lead_yields lead_p buffer, of rest] split by simp
  show ?thesis
  proof (cases "rest = []")
    case True
    then have "block = []" "tail = []" by (simp_all add: block_def tail_def)
    with run_a True streamed size show ?thesis by simp
  next
    case False
    then have "\<not> is_yield (hd rest)"
      unfolding rest_def by (rule hd_dropWhile)
    moreover from False rest_p performed_kinds [of rest "hd rest"]
    have "is_status (hd rest) \<or> (\<exists>d b. hd rest = Yield d \<and> payload d = Some b)" by simp
    ultimately have "is_status (hd rest)" by auto
    with False have block_ne: "block \<noteq> []"
      by (cases rest) (auto simp: block_def)
    define sm where "sm = last (statuses block)"
    have "statuses block \<noteq> []"
      using block_ne block_statuses statuses_empty_iff [of block] by (cases block) auto
    moreover have "\<forall>st mt. CallWriteStatus st mt \<in> set block \<longrightarrow> str_encode mt \<noteq> None"
      using ok split by auto
    ultimately have enc: "str_encode (snd sm) \<noteq> None"
      unfolding sm_def by (rule last_statuses_encodable [rotated])
    let ?sb = "write_status (fst sm) (snd sm) ?sa"
    have run_b: "respond rest ?sa = respond tail ?sb"
      using respond_block [OF block_ne block_statuses, of tail ?sa] split by (simp add: sm_def)
    show ?thesis
    proof (cases "tail = []")
      case True
      with run_a run_b streamed size show ?thesis
        by (simp add: write_status_def)
    next
      case tail_ne: False
      then have "\<not> is_status (hd tail)"
        unfolding tail_def by (rule hd_dropWhile)
      moreover from tail_ne tail_p performed_kinds [of tail "hd tail"]
      have "is_status (hd tail) \<or> (\<exists>d b. hd tail = Yield d \<and> payload d = Some b)" by simp
      ultimately obtain d b tail' where tail: "tail = Yield d # tail'" and b: "payload d = Some b"
        using tail_ne by (cases tail) auto
      from tail_p tail have tail'_p: "performed tail' = tail'"
        using performed_Cons [of "Yield d" tail'] by simp
      show ?thesis
      proof (cases "concat (chunks lead) = []")
        case True
        with size have size_a: "response_size ?sa = 0" by simp
        let ?sc = "?sa\<lparr>status := Some (fst sm), meta := Some (snd sm), response_buffer := [],
                       response_size := length (line_bytes sm) + length b,
                       effects := effects ?sa @ [Write (line_bytes sm), Write b]\<rparr>"
        have step: "write_body d ?sb = Inr ?sc"
          by (rule first_body_commits [OF size_a line_bytes_encodes [OF enc] b])
        have "0 < response_size ?sc"
          using line_bytes_nonempty [OF enc] by simp
        from respond_sent [OF tail'_p this] obtain s1 where "respond tail' ?sc = (None, s1)"
          "effects s1 = effects ?sc @ map Write (chunks tail')"
          "response_size s1 = response_size ?sc + length (concat (chunks tail'))"
          by blast
        with run_a run_b step tail b True block_ne streamed show ?thesis
          by (simp add: sm_def)
      next
        case False
        with size have "0 < response_size ?sb" by (simp add: write_status_def)
        from respond_sent [OF tail_p this] obtain s1 where "respond tail ?sb = (None, s1)"
          "effects s1 = effects ?sb @ map Write (chunks tail)"
          "response_size s1 = response_size ?sb + length (concat (chunks tail))"
          by blast
        with run_a run_b False streamed size show ?thesis
          by (auto simp: write_status_def)
      qed
    qed
  qed
qed

subsection \<open>The handler against the expected trace\<close>

lemma script_respond:
  "(case build_environ w s0 of Inl e \<Rightarrow> (Some e, s0) | Inr environ \<Rightarrow> respond (app environ) s0)
     = respond (script w app s0) s0"
  by (simp add: script_def split: sum.splits)

lemma script_encodable:
  assumes "\<forall>environ st mt. CallWriteStatus st mt \<in> set (app environ) \<longrightarrow> str_encode mt \<noteq> None"
  shows "\<forall>st mt. CallWriteStatus st mt \<in> set (script w app s0) \<longrightarrow> str_encode mt \<noteq> None"
  using assms by (auto simp: script_def split: sum.splits)

lemma cgi_line_bytes:
  "str_encode (status_line st (lit ''An unexpected error occurred''))
     = Some (line_bytes (st, lit ''An unexpected error occurred''))"
  using cgi_error_line [of st] by (auto simp: line_bytes_def)

lemma flush_pending:
  assumes "response_buffer s \<noteq> []" and "response_size s = 0"
    and "str_encode (response_buffer s) = Some line"
  shows "flush_status s =
           Inr (s\<lparr>response_size := length line, effects := effects s @ [Write line],
                 response_buffer := []\<rparr>)"
  using assms by (simp add: flush_status_def transport_write_def)

lemma flush_idle:
  assumes "response_buffer s = [] \<or> 0 < response_size s"
  shows "flush_status s = Inr (s\<lparr>response_buffer := []\<rparr>)"
  using assms by (auto simp: flush_status_def)

lemma handle_request_expected:
  assumes parse: "parse_header s = Inr s0"
    and ok: "\<forall>environ st mt. CallWriteStatus st mt \<in> set (app environ) \<longrightarrow> str_encode mt \<noteq> None"
    and fresh: "response_buffer s = []" "response_size s = 0" "effects s = []"
      "status s = None" "meta s = None"
  shows "\<exists>s' u. handle_request w app s = (None, s') \<and> bytes_decode (request s) = Some u
           \<and> effects s' =
               expected_effects w (client_addr s) (connected_timestamp s) u (script w app s0)
           \<and> response_buffer s' = []"
proof -
  from parse obtain u where u: "bytes_decode (request s) = Some u" and s0: "s0 = s\<lparr>url := Some u\<rparr>"
    by (auto simp: parse_header_def split: if_splits option.splits)
  define as where "as = script w app s0"
  define p where "p = performed as"
  have ok_as: "\<forall>st mt. CallWriteStatus st mt \<in> set as \<longrightarrow> str_encode mt \<noteq> None"
    unfolding as_def by (rule script_encodable [OF ok])
  then have ok_p: "\<forall>st mt. CallWriteStatus st mt \<in> set p \<longrightarrow> str_encode mt \<noteq> None"
    unfolding p_def by (auto dest: statuses_performed_subset)
  have p_p: "performed p = p" unfolding p_def by (rule performed_idem)
  have fresh0: "response_buffer s0 = []" "response_size s0 = 0" "effects s0 = []"
    "status s0 = None" "meta s0 = None" "url s0 = Some u" "client_addr s0 = client_addr s"
    "connected_timestamp s0 = connected_timestamp s"
    using fresh s0 by simp_all
  have "str_encode (response_buffer s0) \<noteq> None" using fresh0 by simp
  from respond_performed [OF ok_as this] obtain s1 where run_p: "respond p s0 = (None, s1)"
    and run: "respond as s0 = (outcome as, s1)"
    unfolding p_def by blast
  from respond_streamed [OF p_p ok_p fresh0(1,2)] run_p fresh0
  have eff1: "effects s1 = map Write (streamed p)"
    and size1: "response_size s1 = length (concat (streamed p))"
    by auto
  from respond_fields [OF p_p run_p] fresh0
  have st1: "status s1 = (if statuses p = [] then None else Some (fst (last (statuses p))))"
    and mt1: "meta s1 = (if statuses p = [] then None else Some (snd (last (statuses p))))"
    and buf1: "response_buffer s1 =
           (if p \<noteq> [] \<and> is_status (last p)
              then status_line (fst (last (statuses p))) (snd (last (statuses p)))
              else [])"
    and fr1: "url s1 = Some u" "client_addr s1 = client_addr s"
      "connected_timestamp s1 = connected_timestamp s"
    by auto
  have silent: "(response_size s1 = 0) = (concat (streamed p) = [])"
    using size1 by simp
  have handler: "handle_request w app s =
      (let s2 = (case outcome as of
                   None \<Rightarrow> s1
                 | Some e \<Rightarrow>
                     write_status (CGI_ERROR w) (lit ''An unexpected error occurred'')
                       (log_message (Traceback e) s1))
       in (case flush_status s2 of
             Inl e' \<Rightarrow> (Some e', s2)
           | Inr s3 \<Rightarrow> (None, loseConnection (log_request s3))))"
    using parse run by (simp add: handle_request_def script_respond as_def [symmetric])
  show ?thesis
  proof (cases "outcome as")
    case None
    show ?thesis
    proof (cases "p \<noteq> [] \<and> is_status (last p) \<and> concat (streamed p) = []")
      case True
      then have pending: "p \<noteq> []" "is_status (last p)" "concat (streamed p) = []" by simp_all
      then have some: "statuses p \<noteq> []" by (simp add: statuses_last)
      from last_statuses_encodable [OF ok_p some]
      have line: "str_encode (response_buffer s1) = Some (line_bytes (last (statuses p)))"
        using buf1 pending by (simp add: line_bytes_encodes)
      have "response_buffer s1 \<noteq> []" using buf1 pending by (simp add: status_line_nonempty)
      from flush_pending [OF this _ line] silent pending
      have "flush_status s1 =
           Inr (s1\<lparr>response_size := length (line_bytes (last (statuses p))),
                 effects := effects s1 @ [Write (line_bytes (last (statuses p)))],
                 response_buffer := []\<rparr>)"
        by simp
      with handler None u pending some eff1 st1 mt1 fr1 show ?thesis
        by (simp add: expected_effects_def Let_def as_def [symmetric] p_def [symmetric]
            loseConnection_def log_request_def log_message_def del: concat_eq_Nil_conv)
    next
      case False
      then have "response_buffer s1 = [] \<or> 0 < response_size s1"
        using buf1 size1 by auto
      from flush_idle [OF this] handler None u False eff1 st1 mt1 fr1 size1 show ?thesis
        by (simp add: expected_effects_def Let_def as_def [symmetric] p_def [symmetric]
            loseConnection_def log_request_def log_message_def del: concat_eq_Nil_conv)
    qed
  next
    case (Some e)
    let ?cgi = "(CGI_ERROR w, lit ''An unexpected error occurred'')"
    let ?s2 = "write_status (CGI_ERROR w) (lit ''An unexpected error occurred'')
                 (log_message (Traceback e) s1)"
    have all: "statuses (p @ [CallWriteStatus (CGI_ERROR w) (lit ''An unexpected error occurred'')])
        = statuses p @ [?cgi]"
      by (simp add: statuses_append)
    have s2: "response_buffer ?s2 = status_line (CGI_ERROR w) (lit ''An unexpected error occurred'')"
      "response_size ?s2 = response_size s1"
      "effects ?s2 = effects s1 @ [LogMessage (Traceback e)]"
      "status ?s2 = Some (CGI_ERROR w)" "meta ?s2 = Some (lit ''An unexpected error occurred'')"
      "url ?s2 = Some u" "client_addr ?s2 = client_addr s"
      "connected_timestamp ?s2 = connected_timestamp s"
      using fr1 by (simp_all add: write_status_def log_message_def)
    show ?thesis
    proof (cases "concat (streamed p) = []")
      case True
      have "response_buffer ?s2 \<noteq> []" by (simp add: s2 status_line_nonempty)
      moreover have "response_size ?s2 = 0" using True size1 by (simp add: s2)
      moreover have "str_encode (response_buffer ?s2) = Some (line_bytes ?cgi)"
        by (simp add: s2 cgi_line_bytes)
      ultimately have "flush_status ?s2 =
           Inr (?s2\<lparr>response_size := length (line_bytes ?cgi),
                 effects := effects ?s2 @ [Write (line_bytes ?cgi)],
                 response_buffer := []\<rparr>)"
        by (rule flush_pending)
      with handler Some u True all eff1 s2 show ?thesis
        by (simp add: expected_effects_def Let_def as_def [symmetric] p_def [symmetric]
            loseConnection_def log_request_def log_message_def del: concat_eq_Nil_conv)
    next
      case False
      then have "response_buffer ?s2 = [] \<or> 0 < response_size ?s2"
        using size1 by (simp add: s2)
      from flush_idle [OF this] handler Some u False all eff1 s2 size1 show ?thesis
        by (simp add: expected_effects_def Let_def as_def [symmetric] p_def [symmetric]
            loseConnection_def log_request_def log_message_def del: concat_eq_Nil_conv)
    qed
  qed
qed

lemma filter_close_Write: "filter is_close (map Write bs) = []"
  by (induction bs) auto

lemma filter_access_Write: "filter is_access_line (map Write bs) = []"
  by (induction bs) auto

lemma expected_effects_once:
  "filter is_close (expected_effects w peer now u as) = [LoseConnection]
   \<and> length (filter is_access_line (expected_effects w peer now u as)) \<le> 1"
  by (simp add: expected_effects_def Let_def filter_close_Write filter_access_Write
      split: option.splits)

section \<open>Facts about the context builder\<close>

text \<open>A context that was built is one of two dictionaries.\<close>

lemma build_environ_cases:
  assumes "build_environ w s = Inr environ"
  obtains (plain) u path query where "url s = Some u" "urlparse w u = Inr (path, query)"
      "getPeerCertificate w = None"
      "environ = map_of
                  [(''GEMINI_URL'', PyStr u),
                   (''HOSTNAME'', PyStr (hostname w)),
                   (''PATH_INFO'', PyStr path),
                   (''QUERY_STRING'', PyStr query),
                   (''REMOTE_ADDR'', PyStr (host (client_addr s))),
                   (''REMOTE_HOST'', PyStr (host (client_addr s))),
                   (''SERVER_NAME'', PyStr (hostname w)),
                   (''SERVER_PORT'', PyStr (str_nat (port (client_addr s)))),
                   (''SERVER_PROTOCOL'', PyStr (lit ''GEMINI'')),
                   (''SERVER_SOFTWARE'', PyStr (lit ''jetforce/'' @ version w)),
                   (''client_certificate'', PyNone)]"
  | (tls) u path query cert cd where "url s = Some u" "urlparse w u = Inr (path, query)"
      "getPeerCertificate w = Some cert" "inspect_certificate w cert = Inr cd"
      "environ = map_of
                  [(''GEMINI_URL'', PyStr u),
                   (''HOSTNAME'', PyStr (hostname w)),
                   (''PATH_INFO'', PyStr path),
                   (''QUERY_STRING'', PyStr query),
                   (''REMOTE_ADDR'', PyStr (host (client_addr s))),
                   (''REMOTE_HOST'', PyStr (host (client_addr s))),
                   (''SERVER_NAME'', PyStr (hostname w)),
                   (''SERVER_PORT'', PyStr (str_nat (port (client_addr s)))),
                   (''SERVER_PROTOCOL'', PyStr (lit ''GEMINI'')),
                   (''SERVER_SOFTWARE'', PyStr (lit ''jetforce/'' @ version w)),
                   (''client_certificate'', PyNone)]
                ++ map_of
                               [(''client_certificate'', PyCertificate cert),
                                (''AUTH_TYPE'', PyStr (lit ''CERTIFICATE'')),
                                (''REMOTE_USER'', common_name cd),
                                (''TLS_CLIENT_HASH'', fingerprint cd),
                                (''TLS_CLIENT_NOT_BEFORE'', not_before cd),
                                (''TLS_CLIENT_NOT_AFTER'', not_after cd),
                                (''TLS_CLIENT_SERIAL_NUMBER'', serial_number cd),
                                (''TLS_CLIENT_VERIFIED'',
                                   (case verified w of None \<Rightarrow> PyBool False | Some v \<Rightarrow> v)),
                                (''TLS_CIPHER'', get_cipher_name w),
                                (''TLS_VERSION'', get_protocol_version_name w)]"
  using assms
  by (auto simp: build_environ_def Let_def split: option.splits sum.splits prod.splits)

section \<open>The examples, evaluated\<close>

lemma status_line_20_bytes:
  "str_encode (status_line 20 (lit ''text/gemini'')) =
     Some [50, 48, 9, 116, 101, 120, 116, 47, 103, 101, 109, 105, 110, 105, 13, 10]"
  by (simp add: status_line_def str_int_def str_nat.simps lit_def encode_char_def)

lemma str_int_59: "str_int 59 = [53, 57]"
  by (simp add: str_int_def str_nat.simps)

lemma str_nat_54321: "str_nat 54321 = [53, 52, 51, 50, 49]"
  by (simp add: str_nat.simps)

lemma example_calls:
  "calls [WriteStatus 20 (lit ''text/gemini''), WriteBody (Bytes [104, 105])] example_conn =
     Inr (example_conn\<lparr>status := Some 20, meta := Some (lit ''text/gemini''),
            response_size := 18,
            effects := [Write [50, 48, 9, 116, 101, 120, 116, 47, 103, 101, 109, 105, 110,
                               105, 13, 10], Write [104, 105]]\<rparr>)"
proof -
  have fresh: "response_size example_conn = 0"
    by (simp add: example_conn_def connectionMade_def)
  have b: "payload (Bytes [104, 105]) = Some [104, 105]"
    by (simp add: payload_def)
  have "effects example_conn = []" "response_buffer example_conn = []"
    by (simp_all add: example_conn_def connectionMade_def)
  with first_body_commits [OF fresh status_line_20_bytes b] show ?thesis
    by simp
qed

lemma example_url_decodes:
  "bytes_decode example_url = Some (lit ''gemini://example.org/'')"
  by (simp add: example_url_def lit_def decode_char_def)

lemma example_parse:
  "parse_header (example_conn\<lparr>request := example_url\<rparr>) =
     Inr (example_conn\<lparr>request := example_url, url := Some (lit ''gemini://example.org/'')\<rparr>)"
  by (simp add: parse_header_def example_url_decodes) (simp add: example_url_def)

lemma example_long_parse:
  "parse_header (example_conn\<lparr>request := replicate 1025 97\<rparr>) = Inl ValueError"
  by (simp add: parse_header_def)

lemma example_environ_plain:
  "\<exists>environ. build_environ example_deps parsed_conn = Inr environ"
  by (simp add: build_environ_def example_deps_def example_urlparse_def parsed_conn_def)

lemma example_environ_tls:
  "\<exists>environ. build_environ tls_deps parsed_conn = Inr environ"
  by (simp add: build_environ_def example_deps_def example_urlparse_def parsed_conn_def
      tls_deps_def)

lemma failing_app_encodable:
  "\<forall>environ st mt. CallWriteStatus st mt \<in> set (failing_app environ) \<longrightarrow> str_encode mt \<noteq> None"
  by (simp add: failing_app_def lit_def encode_char_def)

lemma failing_run:
  "lineReceived example_deps failing_app example_url example_conn =
     (None,
      example_conn\<lparr>request := example_url, url := Some (lit ''gemini://example.org/''),
        status := Some 42, meta := Some (lit ''An unexpected error occurred''),
        response_size := 18,
        effects :=
          [Write [50, 48, 9, 116, 101, 120, 116, 47, 103, 101, 109, 105, 110, 105, 13, 10],
           Write [104, 105],
           LogMessage (Traceback (ApplicationError 0)),
           LogMessage (Text (access_line (lit ''203.0.113.7'') example_now
             (lit ''gemini://example.org/'') 42 (lit ''An unexpected error occurred'') 18)),
           LoseConnection]\<rparr>)"
proof -
  let ?s0 = "example_conn\<lparr>request := example_url, url := Some (lit ''gemini://example.org/'')\<rparr>"
  from example_environ_plain obtain environ where
    env: "build_environ example_deps ?s0 = Inr environ"
    unfolding parsed_conn_def by blast
  have fresh: "response_size ?s0 = 0" "effects ?s0 = []" "response_buffer ?s0 = []"
    "client_addr ?s0 = example_peer" "connected_timestamp ?s0 = example_now"
    by (simp_all add: example_conn_def connectionMade_def)
  have b: "payload (Bytes [104, 105]) = Some [104, 105]" by (simp add: payload_def)
  have run: "respond (failing_app environ) ?s0 =
      (Some (ApplicationError 0),
       ?s0\<lparr>status := Some 20, meta := Some (lit ''text/gemini''), response_buffer := [],
            response_size := 18,
            effects := [Write [50, 48, 9, 116, 101, 120, 116, 47, 103, 101, 109, 105, 110,
                               105, 13, 10], Write [104, 105]]\<rparr>)"
    using first_body_commits [OF fresh(1) status_line_20_bytes b] fresh
    by (simp add: failing_app_def)
  show ?thesis
    using example_parse env run fresh
    by (simp add: lineReceived_def handle_request_def Let_def write_status_def log_message_def
        flush_status_def log_request_def loseConnection_def example_deps_def
        example_peer_def)
qed

lemma malformed_run:
  "\<exists>s'. lineReceived example_deps failing_app (replicate 1025 97) example_conn
               = (Some ValueError, s')
        \<and> effects s' =
            [LogMessage (Traceback ValueError),
             Write [53, 57, 9, 77, 97, 108, 102, 111, 114, 109, 101, 100, 32, 114, 101, 113,
                    117, 101, 115, 116, 13, 10],
             LoseConnection]"
proof -
  have fresh: "response_size (example_conn\<lparr>request := replicate 1025 97\<rparr>) = 0"
    "effects (example_conn\<lparr>request := replicate 1025 97\<rparr>) = []"
    by (simp_all add: example_conn_def connectionMade_def)
  have bad: "BAD_REQUEST example_deps = 59" by (simp add: example_deps_def)
  from handle_request_malformed [OF example_long_parse fresh(1), of example_deps failing_app]
  show ?thesis
    by (simp add: lineReceived_def fresh bad str_int_59)
qed

lemma example_script:
  "script example_deps failing_app parsed_conn = failing_app Map.empty"
  "script example_deps status_only_app parsed_conn = status_only_app Map.empty"
  using example_environ_plain
  by (auto simp: script_def failing_app_def status_only_app_def)

lemma status_line_51_bytes:
  "str_encode (status_line 51 (lit ''Not found'')) =
     Some [53, 49, 9, 78, 111, 116, 32, 102, 111, 117, 110, 100, 13, 10]"
  by (simp add: status_line_def str_int_def str_nat.simps lit_def encode_char_def)

lemma expected_failing:
  "expected_effects example_deps example_peer example_now u (failing_app Map.empty) =
     [Write [50, 48, 9, 116, 101, 120, 116, 47, 103, 101, 109, 105, 110, 105, 13, 10],
      Write [104, 105],
      LogMessage (Traceback (ApplicationError 0)),
      LogMessage (Text (access_line (lit ''203.0.113.7'') example_now u 42
        (lit ''An unexpected error occurred'') 18)),
      LoseConnection]"
  by (simp add: expected_effects_def Let_def failing_app_def payload_def streamed_def
      line_bytes_def status_line_20_bytes example_deps_def example_peer_def)
    (simp add: eval_nat_numeral)

lemma expected_status_only:
  "expected_effects example_deps example_peer example_now u (status_only_app Map.empty) =
     [Write [53, 49, 9, 78, 111, 116, 32, 102, 111, 117, 110, 100, 13, 10],
      LogMessage (Text (access_line (lit ''203.0.113.7'') example_now u 51
        (lit ''Not found'') 14)),
      LoseConnection]"
  by (simp add: expected_effects_def Let_def status_only_app_def payload_def streamed_def
      line_bytes_def status_line_51_bytes example_deps_def example_peer_def)
    (simp add: eval_nat_numeral)

lemma status_only_app_encodable:
  "\<forall>environ st mt. CallWriteStatus st mt \<in> set (status_only_app environ) \<longrightarrow> str_encode mt \<noteq> None"
  by (simp add: status_only_app_def lit_def encode_char_def)

section \<open>The claims\<close>

text \<open>
  C1. Take any calls of \<^verbatim>\<open>write_status\<close>, the last of them with \<open>st\<close> and \<open>mt\<close>, then
  the first \<^verbatim>\<open>write_body\<close>, then any further calls of the writer, on a connection that
  has sent nothing yet, where the status line and every chunk have an encoding. Every
  call returns, and the transport is written exactly: the one status line of \<open>st\<close> and
  \<open>mt\<close>, then the body chunks in order. The \<^verbatim>\<open>write_status\<close> calls after the first
  \<^verbatim>\<open>write_body\<close> change nothing the transport sees: without them the calls leave the
  same trace.
\<close>

theorem one_status_line_before_body:
  assumes pre: "\<forall>c\<in>set pre. is_WriteStatus c"
    and fresh: "response_size s = 0"
    and line: "str_encode (status_line st mt) = Some line"
    and bs: "bodies (WriteBody d # rest) = Some bs"
  shows "\<exists>s' s''.
           calls (pre @ WriteStatus st mt # WriteBody d # rest) s = Inr s'
         \<and> effects s' = effects s @ Write line # map Write bs
         \<and> calls (pre @ WriteStatus st mt # WriteBody d
                    # filter (\<lambda>c. \<not> is_WriteStatus c) rest) s = Inr s''
         \<and> effects s'' = effects s'"
proof -
  let ?rest' = "filter (\<lambda>c. \<not> is_WriteStatus c) rest"
  from bs have bs': "bodies (WriteBody d # ?rest') = Some bs"
    using bodies_without_status [of rest] by (simp split: option.splits)
  from calls_status_prefix [OF pre, of "WriteStatus st mt # WriteBody d # rest" s]
  obtain s1 where run: "calls (pre @ WriteStatus st mt # WriteBody d # rest) s
      = calls (WriteStatus st mt # WriteBody d # rest) s1"
    and size1: "response_size s1 = 0" and eff1: "effects s1 = effects s"
    using fresh by auto
  from calls_status_prefix [OF pre, of "WriteStatus st mt # WriteBody d # ?rest'" s]
  obtain s2 where run': "calls (pre @ WriteStatus st mt # WriteBody d # ?rest') s
      = calls (WriteStatus st mt # WriteBody d # ?rest') s2"
    and size2: "response_size s2 = 0" and eff2: "effects s2 = effects s"
    using fresh by auto
  from status_then_body [OF size1 line bs] obtain s' where
    "calls (WriteStatus st mt # WriteBody d # rest) s1 = Inr s'"
    "effects s' = effects s1 @ Write line # map Write bs" by blast
  moreover from status_then_body [OF size2 line bs'] obtain s'' where
    "calls (WriteStatus st mt # WriteBody d # ?rest') s2 = Inr s''"
    "effects s'' = effects s2 @ Write line # map Write bs" by blast
  ultimately show ?thesis
    using run run' eff1 eff2 by simp
qed

theorem one_status_line_before_body_witness:
  "\<exists>s' s''.
     calls [WriteStatus 51 (lit ''Not found''), WriteStatus 20 (lit ''text/gemini''),
            WriteBody (Str (lit ''hi'')), WriteStatus 42 (lit ''late''),
            WriteBody (Bytes [33])] example_conn = Inr s'
   \<and> effects s' =
       [Write [50, 48, 9, 116, 101, 120, 116, 47, 103, 101, 109, 105, 110, 105, 13, 10],
        Write [104, 105], Write [33]]
   \<and> calls [WriteStatus 51 (lit ''Not found''), WriteStatus 20 (lit ''text/gemini''),
            WriteBody (Str (lit ''hi'')), WriteBody (Bytes [33])] example_conn = Inr s''
   \<and> effects s'' = effects s'"
proof -
  have pre: "\<forall>c\<in>set [WriteStatus 51 (lit ''Not found'')]. is_WriteStatus c"
    by simp
  have fresh: "response_size example_conn = 0"
    by (simp add: example_conn_def connectionMade_def)
  have bs: "bodies (WriteBody (Str (lit ''hi''))
                     # [WriteStatus 42 (lit ''late''), WriteBody (Bytes [33])])
      = Some [[104, 105], [33]]"
    by (simp add: payload_def lit_def encode_char_def)
  have "effects example_conn = []"
    by (simp add: example_conn_def connectionMade_def)
  with one_status_line_before_body [OF pre fresh status_line_20_bytes bs]
  show ?thesis by simp
qed

text \<open>
  C8. A call of \<^verbatim>\<open>flush_status\<close> that returns leaves the pending status buffer empty,
  and a second call right after it returns the very same object: it writes nothing to
  the transport and leaves \<^verbatim>\<open>response_size\<close> as it is. Two flushes in a row are one.
\<close>

theorem flush_status_idempotent:
  assumes "flush_status s = Inr s1"
  shows "response_buffer s1 = [] \<and> flush_status s1 = Inr s1
         \<and> (case flush_status s of Inl e \<Rightarrow> Inl e | Inr s2 \<Rightarrow> flush_status s2) = flush_status s"
proof -
  from assms have empty: "response_buffer s1 = []"
    by (auto simp: flush_status_def transport_write_def split: if_splits option.splits)
  then have again: "flush_status s1 = Inr s1"
    by (simp add: flush_status_def)
  with assms empty show ?thesis by simp
qed

theorem flush_status_idempotent_witness:
  "flush_status (write_status 20 (lit ''text/gemini'') example_conn) =
     Inr (example_conn\<lparr>status := Some 20, meta := Some (lit ''text/gemini''),
            response_size := 16,
            effects := [Write [50, 48, 9, 116, 101, 120, 116, 47, 103, 101, 109, 105, 110,
                               105, 13, 10]]\<rparr>)
   \<and> flush_status
       (example_conn\<lparr>status := Some 20, meta := Some (lit ''text/gemini''),
            response_size := 16,
            effects := [Write [50, 48, 9, 116, 101, 120, 116, 47, 103, 101, 109, 105, 110,
                               105, 13, 10]]\<rparr>)
     = Inr (example_conn\<lparr>status := Some 20, meta := Some (lit ''text/gemini''),
            response_size := 16,
            effects := [Write [50, 48, 9, 116, 101, 120, 116, 47, 103, 101, 109, 105, 110,
                               105, 13, 10]]\<rparr>)"
proof -
  let ?s1 = "example_conn\<lparr>status := Some 20, meta := Some (lit ''text/gemini''),
            response_size := 16,
            effects := [Write [50, 48, 9, 116, 101, 120, 116, 47, 103, 101, 109, 105, 110,
                               105, 13, 10]]\<rparr>"
  have first: "flush_status (write_status 20 (lit ''text/gemini'') example_conn) = Inr ?s1"
    using status_line_20_bytes
    by (simp add: flush_status_def write_status_def transport_write_def status_line_nonempty
        example_conn_def connectionMade_def)
  from flush_status_idempotent [OF first] first show ?thesis by simp
qed

text \<open>
  C10. On a connection that has sent nothing, after a call of \<^verbatim>\<open>write_status\<close> whose
  line has an encoding, a call of \<^verbatim>\<open>write_body\<close> with a chunk of zero bytes returns
  and hands the transport the status line, which is not empty, and then the empty
  chunk. The buffer is empty afterwards and \<^verbatim>\<open>response_size\<close> is the length of the line.
\<close>

theorem empty_body_commits_status:
  assumes fresh: "response_size s = 0"
    and line: "str_encode (status_line st mt) = Some line"
    and empty: "payload d = Some []"
  shows "\<exists>s'. write_body d (write_status st mt s) = Inr s'
           \<and> effects s' = effects s @ [Write line, Write []]
           \<and> line \<noteq> [] \<and> response_buffer s' = [] \<and> response_size s' = length line"
proof -
  from line have "line \<noteq> []"
    using str_encode_empty_iff [of "status_line st mt" line] status_line_nonempty by simp
  with first_body_commits [OF fresh line empty] show ?thesis by simp
qed

theorem empty_body_commits_status_witness:
  "\<exists>s'. write_body (Str []) (write_status 20 (lit ''text/gemini'') example_conn) = Inr s'
     \<and> effects s' =
         [Write [50, 48, 9, 116, 101, 120, 116, 47, 103, 101, 109, 105, 110, 105, 13, 10],
          Write []]
     \<and> response_buffer s' = [] \<and> response_size s' = 16"
proof -
  have fresh: "response_size example_conn = 0"
    by (simp add: example_conn_def connectionMade_def)
  have empty: "payload (Str []) = Some []"
    by (simp add: payload_def)
  have "effects example_conn = []"
    by (simp add: example_conn_def connectionMade_def)
  with empty_body_commits_status [OF fresh status_line_20_bytes empty]
  show ?thesis by (simp add: eval_nat_numeral)
qed

text \<open>
  C3, as amended. \<^verbatim>\<open>response_size\<close> is 0 after \<^verbatim>\<open>connectionMade\<close> and no call of the
  writer that returns lowers it. After any calls of \<^verbatim>\<open>write_status\<close>, \<^verbatim>\<open>write_body\<close>
  and \<^verbatim>\<open>flush_status\<close> on a connection with nothing sent and nothing pending, the
  bytes handed to the transport are those of one status line, if one was flushed,
  followed by the bytes of the body chunks, and \<^verbatim>\<open>response_size\<close> counts all of them:
  the length of that status line plus the sum of the lengths of the chunks.
\<close>

theorem response_size_counts_status_line:
  assumes size: "response_size s = 0" and buffer: "response_buffer s = []"
    and run: "calls cs s = Inr s1" and more: "calls cs' s1 = Inr s2"
  shows "response_size (connectionMade peer now) = 0
       \<and> response_size s1 \<le> response_size s2
       \<and> (\<exists>line bs. bodies cs = Some bs
            \<and> concat (written (effects s1)) = concat (written (effects s)) @ line @ concat bs
            \<and> response_size s1 = length line + sum_list (map length bs)
            \<and> (line = [] \<or> (\<exists>st mt. WriteStatus st mt \<in> set cs
                                \<and> str_encode (status_line st mt) = Some line)))"
proof -
  have "response_size (connectionMade peer now) = 0"
    by (simp add: connectionMade_def)
  moreover from more have "response_size s1 \<le> response_size s2"
    by (rule calls_size)
  moreover from calls_silent [OF run size] buffer
  have "\<exists>line bs. bodies cs = Some bs
            \<and> concat (written (effects s1)) = concat (written (effects s)) @ line @ concat bs
            \<and> response_size s1 = length line + sum_list (map length bs)
            \<and> (line = [] \<or> (\<exists>st mt. WriteStatus st mt \<in> set cs
                                \<and> str_encode (status_line st mt) = Some line))"
    by fastforce
  ultimately show ?thesis by blast
qed

text \<open>
  The claim as stated fails: after \<^verbatim>\<open>write_status(20, "text/gemini")\<close> and
  \<^verbatim>\<open>write_body(b"hi")\<close> the counter is 18, the 16 bytes of the status line and the 2
  of the chunk, while the chunks alone have 2 bytes.
\<close>

theorem response_size_counterexample:
  "calls [WriteStatus 20 (lit ''text/gemini''), WriteBody (Bytes [104, 105])] example_conn =
     Inr (example_conn\<lparr>status := Some 20, meta := Some (lit ''text/gemini''),
            response_size := 18,
            effects := [Write [50, 48, 9, 116, 101, 120, 116, 47, 103, 101, 109, 105, 110,
                               105, 13, 10], Write [104, 105]]\<rparr>)
   \<and> bodies [WriteStatus 20 (lit ''text/gemini''), WriteBody (Bytes [104, 105])]
       = Some [[104, 105]]
   \<and> sum_list (map length [[104, 105 :: byte]]) = 2"
  using example_calls by (simp add: payload_def)

theorem response_size_counts_status_line_witness:
  "response_size (connectionMade example_peer example_now) = 0
   \<and> (18 :: nat) \<le> 19
   \<and> (\<exists>line bs. bodies [WriteStatus 20 (lit ''text/gemini''), WriteBody (Bytes [104, 105])]
          = Some bs
        \<and> concat [[50, 48, 9, 116, 101, 120, 116, 47, 103, 101, 109, 105, 110, 105, 13, 10],
                   [104, 105 :: byte]] = line @ concat bs
        \<and> (18 :: nat) = length line + sum_list (map length bs)
        \<and> (line = [] \<or> (\<exists>st mt. WriteStatus st mt
                \<in> set [WriteStatus 20 (lit ''text/gemini''), WriteBody (Bytes [104, 105])]
              \<and> str_encode (status_line st mt) = Some line)))"
proof -
  let ?s1 = "example_conn\<lparr>status := Some 20, meta := Some (lit ''text/gemini''),
            response_size := 18,
            effects := [Write [50, 48, 9, 116, 101, 120, 116, 47, 103, 101, 109, 105, 110,
                               105, 13, 10], Write [104, 105]]\<rparr>"
  let ?s2 = "?s1\<lparr>response_size := 19,
            effects := [Write [50, 48, 9, 116, 101, 120, 116, 47, 103, 101, 109, 105, 110,
                               105, 13, 10], Write [104, 105], Write [33]]\<rparr>"
  have size: "response_size example_conn = 0" and buffer: "response_buffer example_conn = []"
    and eff: "effects example_conn = []"
    by (simp_all add: example_conn_def connectionMade_def)
  have more: "calls [WriteBody (Bytes [33])] ?s1 = Inr ?s2"
    by (simp add: write_body_def payload_def flush_status_def transport_write_def
        example_conn_def connectionMade_def)
  from response_size_counts_status_line [OF size buffer example_calls more, of example_peer example_now]
  show ?thesis using eff by simp
qed

text \<open>
  C2, as amended. Take a connection fresh from \<^verbatim>\<open>connectionMade\<close> and an application
  whose run is finite and whose status messages have an encoding. When the request
  line parses, then whatever the application does (it may return or raise) no
  exception leaves the handler and the trace of the connection is exactly the expected
  one: what the streaming wrote, the traceback of an exception, and then the terminal
  sequence, once: the status line still pending goes to the transport if no byte has
  gone out; the access-log line follows if a status call was ever made, by the
  application or by the handler for an exception, with the status and meta of the last
  such call; and the transport is closed. The trace holds one \<^verbatim>\<open>loseConnection\<close> and at
  most one access-log line, and the buffer is empty at the end. When the request line
  does not parse, the trace is the traceback, the bad-request status line and the one
  \<^verbatim>\<open>loseConnection\<close>, and the exception is raised again: \<^verbatim>\<open>log_request\<close> is not
  reached and no access-log line is written.
\<close>

theorem terminal_sequence_after_parse:
  assumes app: "\<forall>environ st mt. CallWriteStatus st mt \<in> set (app environ)
                  \<longrightarrow> str_encode mt \<noteq> None"
  shows "(\<forall>s0. parse_header ((connectionMade peer now)\<lparr>request := line\<rparr>) = Inr s0 \<longrightarrow>
           (\<exists>s' u.
              lineReceived w app line (connectionMade peer now) = (None, s')
            \<and> bytes_decode line = Some u
            \<and> effects s' = expected_effects w peer now u (script w app s0)
            \<and> filter is_close (effects s') = [LoseConnection]
            \<and> length (filter is_access_line (effects s')) \<le> 1
            \<and> response_buffer s' = []))
       \<and> (\<forall>e. parse_header ((connectionMade peer now)\<lparr>request := line\<rparr>) = Inl e \<longrightarrow>
           (\<exists>s'. lineReceived w app line (connectionMade peer now) = (Some e, s')
            \<and> effects s' =
                [LogMessage (Traceback e),
                 Write (map of_nat (str_int (BAD_REQUEST w))
                        @ [9, 77, 97, 108, 102, 111, 114, 109, 101, 100, 32, 114, 101, 113,
                           117, 101, 115, 116, 13, 10]),
                 LoseConnection]))"
proof (intro conjI allI impI)
  fix s0
  let ?s = "(connectionMade peer now)\<lparr>request := line\<rparr>"
  assume parse: "parse_header ?s = Inr s0"
  have fresh: "response_buffer ?s = []" "response_size ?s = 0" "effects ?s = []"
    "status ?s = None" "meta ?s = None"
    by (simp_all add: connectionMade_def)
  have peer: "client_addr ?s = peer" "connected_timestamp ?s = now" "request ?s = line"
    by (simp_all add: connectionMade_def)
  from handle_request_expected [OF parse app fresh, of w, unfolded peer]
  obtain s' u where "handle_request w app ?s = (None, s')" "bytes_decode line = Some u"
    "effects s' = expected_effects w peer now u (script w app s0)" "response_buffer s' = []"
    by blast
  moreover from this expected_effects_once [of w peer now u "script w app s0"]
  have "filter is_close (effects s') = [LoseConnection]"
    "length (filter is_access_line (effects s')) \<le> 1"
    by simp_all
  ultimately show "\<exists>s' u.
              lineReceived w app line (connectionMade peer now) = (None, s')
            \<and> bytes_decode line = Some u
            \<and> effects s' = expected_effects w peer now u (script w app s0)
            \<and> filter is_close (effects s') = [LoseConnection]
            \<and> length (filter is_access_line (effects s')) \<le> 1
            \<and> response_buffer s' = []"
    unfolding lineReceived_def by blast
next
  fix e
  let ?s = "(connectionMade peer now)\<lparr>request := line\<rparr>"
  assume parse: "parse_header ?s = Inl e"
  have fresh: "response_size ?s = 0" by (simp add: connectionMade_def)
  from handle_request_malformed [OF parse fresh, of w app]
  show "\<exists>s'. lineReceived w app line (connectionMade peer now) = (Some e, s')
            \<and> effects s' =
                [LogMessage (Traceback e),
                 Write (map of_nat (str_int (BAD_REQUEST w))
                        @ [9, 77, 97, 108, 102, 111, 114, 109, 101, 100, 32, 114, 101, 113,
                           117, 101, 115, 116, 13, 10]),
                 LoseConnection]"
    by (simp add: lineReceived_def connectionMade_def)
qed

theorem terminal_sequence_after_parse_witness:
  "(\<exists>s'. lineReceived example_deps failing_app example_url example_conn = (None, s')
      \<and> effects s' =
          [Write [50, 48, 9, 116, 101, 120, 116, 47, 103, 101, 109, 105, 110, 105, 13, 10],
           Write [104, 105],
           LogMessage (Traceback (ApplicationError 0)),
           LogMessage (Text (access_line (lit ''203.0.113.7'') example_now
             (lit ''gemini://example.org/'') 42 (lit ''An unexpected error occurred'') 18)),
           LoseConnection])
   \<and> (\<exists>s'. lineReceived example_deps status_only_app example_url example_conn = (None, s')
      \<and> effects s' =
          [Write [53, 49, 9, 78, 111, 116, 32, 102, 111, 117, 110, 100, 13, 10],
           LogMessage (Text (access_line (lit ''203.0.113.7'') example_now
             (lit ''gemini://example.org/'') 51 (lit ''Not found'') 14)),
           LoseConnection])
   \<and> (\<exists>s'. lineReceived example_deps failing_app (replicate 1025 97) example_conn
               = (Some ValueError, s')
        \<and> effects s' =
            [LogMessage (Traceback ValueError),
             Write [53, 57, 9, 77, 97, 108, 102, 111, 114, 109, 101, 100, 32, 114, 101, 113,
                    117, 101, 115, 116, 13, 10],
             LoseConnection])"
proof -
  have bad: "BAD_REQUEST example_deps = 59" by (simp add: example_deps_def)
  have parsed: "parse_header ((connectionMade example_peer example_now)\<lparr>request := example_url\<rparr>)
      = Inr parsed_conn"
    using example_parse by (simp add: example_conn_def parsed_conn_def)
  have long: "parse_header ((connectionMade example_peer example_now)\<lparr>request := replicate 1025 97\<rparr>)
      = Inl ValueError"
    using example_long_parse by (simp add: example_conn_def)
  from terminal_sequence_after_parse [OF failing_app_encodable,
      where peer = example_peer and now = example_now and line = example_url
        and w = example_deps]
    parsed example_url_decodes
  have first: "\<exists>s'. lineReceived example_deps failing_app example_url example_conn = (None, s')
      \<and> effects s' = expected_effects example_deps example_peer example_now
            (lit ''gemini://example.org/'') (script example_deps failing_app parsed_conn)"
    unfolding example_conn_def by auto
  from terminal_sequence_after_parse [OF status_only_app_encodable,
      where peer = example_peer and now = example_now and line = example_url
        and w = example_deps]
    parsed example_url_decodes
  have second: "\<exists>s'. lineReceived example_deps status_only_app example_url example_conn = (None, s')
      \<and> effects s' = expected_effects example_deps example_peer example_now
            (lit ''gemini://example.org/'') (script example_deps status_only_app parsed_conn)"
    unfolding example_conn_def by auto
  from terminal_sequence_after_parse [OF failing_app_encodable,
      where peer = example_peer and now = example_now and line = "replicate 1025 97"
        and w = example_deps]
    long
  have "\<exists>s'. lineReceived example_deps failing_app (replicate 1025 97) example_conn
               = (Some ValueError, s')
        \<and> effects s' =
            [LogMessage (Traceback ValueError),
             Write (map of_nat (str_int (BAD_REQUEST example_deps))
                        @ [9, 77, 97, 108, 102, 111, 114, 109, 101, 100, 32, 114, 101, 113,
                           117, 101, 115, 116, 13, 10]),
             LoseConnection]"
    unfolding example_conn_def by blast
  then have third: "\<exists>s'. lineReceived example_deps failing_app (replicate 1025 97) example_conn
               = (Some ValueError, s')
        \<and> effects s' =
            [LogMessage (Traceback ValueError),
             Write [53, 57, 9, 77, 97, 108, 102, 111, 114, 109, 101, 100, 32, 114, 101, 113,
                    117, 101, 115, 116, 13, 10],
             LoseConnection]"
    by (simp add: bad str_int_59)
  from first second third show ?thesis
    by (simp add: example_script expected_failing expected_status_only)
qed

text \<open>
  The claim as stated fails: for a request line of 1025 bytes the handler logs the
  traceback, writes \<^verbatim>\<open>59\tMalformed request\r\n\<close> and closes; the trace has no
  access-log line.
\<close>

theorem no_access_line_counterexample:
  "fst (lineReceived example_deps failing_app (replicate 1025 97) example_conn)
     = Some ValueError
   \<and> effects (snd (lineReceived example_deps failing_app (replicate 1025 97) example_conn))
     = [LogMessage (Traceback ValueError),
        Write [53, 57, 9, 77, 97, 108, 102, 111, 114, 109, 101, 100, 32, 114, 101, 113,
               117, 101, 115, 116, 13, 10],
        LoseConnection]
   \<and> filter is_access_line
       (effects (snd (lineReceived example_deps failing_app (replicate 1025 97) example_conn)))
     = []"
proof -
  from malformed_run obtain s' where
    run: "lineReceived example_deps failing_app (replicate 1025 97) example_conn
               = (Some ValueError, s')"
    and eff: "effects s' =
            [LogMessage (Traceback ValueError),
             Write [53, 57, 9, 77, 97, 108, 102, 111, 114, 109, 101, 100, 32, 114, 101, 113,
                    117, 101, 115, 116, 13, 10],
             LoseConnection]"
    by blast
  then show ?thesis by simp
qed

text \<open>
  C4. \<^verbatim>\<open>parse_header\<close> returns exactly when the request line has at most 1024 bytes
  and is UTF-8, that is, the encoding of some text. It then assigns the decoded text to
  \<^verbatim>\<open>url\<close> and changes nothing else, and the decoded text is the line unchanged:
  encoding it gives the line back. A longer
  line raises \<^verbatim>\<open>ValueError\<close> and a line that is not UTF-8 raises
  \<^verbatim>\<open>UnicodeDecodeError\<close>. When the parser raises on a connection that has sent
  nothing, the handler raises the same exception, and all it has written to the
  transport is the bad-request status line: no body.
\<close>

theorem parse_header_succeeds_iff:
  "((\<exists>s'. parse_header s = Inr s')
      = (length (request s) \<le> 1024 \<and> (\<exists>u. bytes_decode (request s) = Some u)))
   \<and> ((\<exists>u. bytes_decode (request s) = Some u) = (\<exists>u. str_encode u = Some (request s)))
   \<and> (\<forall>u. length (request s) \<le> 1024 \<and> bytes_decode (request s) = Some u \<longrightarrow>
          parse_header s = Inr (s\<lparr>url := Some u\<rparr>) \<and> str_encode u = Some (request s))
   \<and> (1024 < length (request s) \<longrightarrow> parse_header s = Inl ValueError)
   \<and> (length (request s) \<le> 1024 \<and> bytes_decode (request s) = None \<longrightarrow>
          parse_header s = Inl UnicodeDecodeError)
   \<and> (\<forall>e. parse_header s = Inl e \<and> response_size s = 0 \<longrightarrow>
          (\<exists>s'. handle_request w app s = (Some e, s')
             \<and> written (effects s') = written (effects s) @
                 [map of_nat (str_int (BAD_REQUEST w))
                  @ [9, 77, 97, 108, 102, 111, 114, 109, 101, 100, 32, 114, 101, 113, 117,
                     101, 115, 116, 13, 10]]
             \<and> response_size s' = length (str_int (BAD_REQUEST w)) + 20))"
proof (intro conjI allI impI)
  show "(\<exists>s'. parse_header s = Inr s')
      = (length (request s) \<le> 1024 \<and> (\<exists>u. bytes_decode (request s) = Some u))"
    by (auto simp: parse_header_def split: option.splits)
next
  show "(\<exists>u. bytes_decode (request s) = Some u) = (\<exists>u. str_encode u = Some (request s))"
    by (simp add: bytes_decode_iff)
next
  fix u
  assume ok: "length (request s) \<le> 1024 \<and> bytes_decode (request s) = Some u"
  then show "parse_header s = Inr (s\<lparr>url := Some u\<rparr>)"
    by (simp add: parse_header_def)
  from ok show "str_encode u = Some (request s)"
    by (simp add: bytes_decode_encode)
next
  assume "1024 < length (request s)"
  then show "parse_header s = Inl ValueError"
    by (simp add: parse_header_def)
next
  assume "length (request s) \<le> 1024 \<and> bytes_decode (request s) = None"
  then show "parse_header s = Inl UnicodeDecodeError"
    by (simp add: parse_header_def)
next
  fix e
  assume bad: "parse_header s = Inl e \<and> response_size s = 0"
  then have parse: "parse_header s = Inl e" and fresh: "response_size s = 0" by simp_all
  have line: "str_encode (status_line (BAD_REQUEST w) (lit ''Malformed request'')) =
     Some (map of_nat (str_int (BAD_REQUEST w))
           @ [9, 77, 97, 108, 102, 111, 114, 109, 101, 100, 32, 114, 101, 113, 117, 101, 115,
              116, 13, 10])"
    by (rule malformed_line)
  show "\<exists>s'. handle_request w app s = (Some e, s')
             \<and> written (effects s') = written (effects s) @
                 [map of_nat (str_int (BAD_REQUEST w))
                  @ [9, 77, 97, 108, 102, 111, 114, 109, 101, 100, 32, 114, 101, 113, 117,
                     101, 115, 116, 13, 10]]
             \<and> response_size s' = length (str_int (BAD_REQUEST w)) + 20"
    using parse fresh line
    by (simp add: handle_request_def Let_def write_status_def log_message_def flush_status_def
        transport_write_def loseConnection_def status_line_nonempty written_append)
qed

theorem parse_header_succeeds_iff_witness:
  "parse_header (example_conn\<lparr>request := example_url\<rparr>) =
     Inr (example_conn\<lparr>request := example_url, url := Some (lit ''gemini://example.org/'')\<rparr>)
   \<and> str_encode (lit ''gemini://example.org/'') = Some example_url
   \<and> parse_header (example_conn\<lparr>request := replicate 1025 97\<rparr>) = Inl ValueError
   \<and> parse_header (example_conn\<lparr>request := [0xC3, 0x28]\<rparr>) = Inl UnicodeDecodeError
   \<and> (\<exists>s'. handle_request example_deps failing_app (example_conn\<lparr>request := replicate 1025 97\<rparr>)
              = (Some ValueError, s')
         \<and> written (effects s') =
             [[53, 57, 9, 77, 97, 108, 102, 111, 114, 109, 101, 100, 32, 114, 101, 113, 117,
               101, 115, 116, 13, 10]]
         \<and> response_size s' = 22)"
proof -
  let ?ok = "example_conn\<lparr>request := example_url\<rparr>"
  let ?long = "example_conn\<lparr>request := replicate 1025 97\<rparr>"
  let ?bad = "example_conn\<lparr>request := [0xC3, 0x28]\<rparr>"
  have len: "length (request ?ok) \<le> 1024 \<and> bytes_decode (request ?ok)
      = Some (lit ''gemini://example.org/'')"
    by (simp add: example_url_decodes) (simp add: example_url_def)
  from parse_header_succeeds_iff [of ?ok] len
  have one: "parse_header ?ok = Inr (?ok\<lparr>url := Some (lit ''gemini://example.org/'')\<rparr>)"
    and two: "str_encode (lit ''gemini://example.org/'') = Some example_url"
    by auto
  have "1024 < length (request ?long)" by simp
  with parse_header_succeeds_iff [of ?long] have three: "parse_header ?long = Inl ValueError"
    by blast
  have "length (request ?bad) \<le> 1024 \<and> bytes_decode (request ?bad) = None"
    by (simp add: decode_char_def is_cont_def)
  with parse_header_succeeds_iff [of ?bad] have four: "parse_header ?bad = Inl UnicodeDecodeError"
    by blast
  have "response_size ?long = 0" "effects ?long = []"
    by (simp_all add: example_conn_def connectionMade_def)
  with parse_header_succeeds_iff [of ?long example_deps failing_app] three
  have five: "\<exists>s'. handle_request example_deps failing_app ?long = (Some ValueError, s')
         \<and> written (effects s') =
             [[53, 57, 9, 77, 97, 108, 102, 111, 114, 109, 101, 100, 32, 114, 101, 113, 117,
               101, 115, 116, 13, 10]]
         \<and> response_size s' = 22"
    by (simp add: example_deps_def str_int_59)
  from one two three four five show ?thesis by simp
qed

text \<open>
  C6, as amended. \<^verbatim>\<open>write_status\<close> assigns \<^verbatim>\<open>status\<close> and \<^verbatim>\<open>meta\<close> on every call,
  whether or not a status line has been flushed. After a call \<^verbatim>\<open>write_status(st, mt)\<close>
  that no other call of \<^verbatim>\<open>write_status\<close> follows, the two fields hold \<open>st\<close> and \<open>mt\<close>
  and the access-log line reports them. They are the status and meta that were
  transmitted when that call was made before anything was sent and a flush or a chunk
  followed: then the transport was written the status line of \<open>st\<close> and \<open>mt\<close> first.
\<close>

theorem log_reports_last_write_status:
  assumes run: "calls cs (write_status st mt s) = Inr s'"
    and last: "\<forall>c\<in>set cs. \<not> is_WriteStatus c"
    and u: "url s = Some u"
  shows "status s' = Some st \<and> meta s' = Some mt
       \<and> effects (log_request s') = effects s' @
           [LogMessage (Text (access_line (host (client_addr s)) (connected_timestamp s) u st mt
              (response_size s')))]
       \<and> (response_size s = 0 \<and> cs \<noteq> [] \<longrightarrow>
            (\<exists>line bs. str_encode (status_line st mt) = Some line
               \<and> effects s' = effects s @ Write line # map Write bs))"
proof -
  from calls_frame [OF run] last u
  have fr: "url s' = Some u" "client_addr s' = client_addr s"
    "connected_timestamp s' = connected_timestamp s" "status s' = Some st" "meta s' = Some mt"
    by (simp_all add: write_status_def)
  then have log: "effects (log_request s') = effects s' @
           [LogMessage (Text (access_line (host (client_addr s)) (connected_timestamp s) u st mt
              (response_size s')))]"
    by (simp add: log_request_def log_message_def)
  have sent: "\<exists>line bs. str_encode (status_line st mt) = Some line
               \<and> effects s' = effects s @ Write line # map Write bs"
    if fresh: "response_size s = 0" and some: "cs \<noteq> []"
  proof -
    from some obtain c cs' where cs: "cs = c # cs'" by (cases cs) auto
    from last cs have "\<not> is_WriteStatus c" by simp
    then consider (body) d where "c = WriteBody d" | (flush) "c = FlushStatus"
      by (cases c) auto
    then show ?thesis
    proof cases
      case body
      from run cs body obtain s1 where step: "write_body d (write_status st mt s) = Inr s1"
        by (auto split: sum.splits)
      then obtain s0 where "flush_status (write_status st mt s) = Inr s0"
        by (auto simp: write_body_def split: sum.splits option.splits)
      from flush_after_status [OF this fresh] obtain line where
        line: "str_encode (status_line st mt) = Some line" by blast
      from run cs body obtain bs where bs: "bodies (WriteBody d # cs') = Some bs"
        using calls_bodies by blast
      from status_then_body [OF fresh line bs] run cs body
      have "effects s' = effects s @ Write line # map Write bs" by simp
      with line show ?thesis by blast
    next
      case flush
      from run cs flush obtain s1 where step: "flush_status (write_status st mt s) = Inr s1"
        and rest: "calls cs' s1 = Inr s'"
        by (auto split: sum.splits)
      from flush_after_status [OF step fresh] obtain line where
        line: "str_encode (status_line st mt) = Some line" "line \<noteq> []"
        and s1: "effects s1 = effects s @ [Write line]" "response_size s1 = length line"
        by blast
      from rest obtain bs where bs: "bodies cs' = Some bs"
        using calls_bodies by blast
      from line s1 have "0 < response_size s1" by simp
      from calls_sent [OF this bs] rest s1
      have "effects s' = effects s @ Write line # map Write bs" by auto
      with line show ?thesis by blast
    qed
  qed
  from fr log sent show ?thesis by blast
qed

theorem log_reports_last_write_status_witness:
  "status (example_conn\<lparr>url := Some (lit ''gemini://example.org/''), status := Some 20,
            meta := Some (lit ''text/gemini''), response_size := 18,
            effects := [Write [50, 48, 9, 116, 101, 120, 116, 47, 103, 101, 109, 105, 110,
                               105, 13, 10], Write [104, 105]]\<rparr>) = Some 20
   \<and> effects (log_request
        (example_conn\<lparr>url := Some (lit ''gemini://example.org/''), status := Some 20,
            meta := Some (lit ''text/gemini''), response_size := 18,
            effects := [Write [50, 48, 9, 116, 101, 120, 116, 47, 103, 101, 109, 105, 110,
                               105, 13, 10], Write [104, 105]]\<rparr>))
     = [Write [50, 48, 9, 116, 101, 120, 116, 47, 103, 101, 109, 105, 110, 105, 13, 10],
        Write [104, 105],
        LogMessage (Text (access_line (lit ''203.0.113.7'') example_now
          (lit ''gemini://example.org/'') 20 (lit ''text/gemini'') 18))]
   \<and> (\<exists>line bs. str_encode (status_line 20 (lit ''text/gemini'')) = Some line
         \<and> [Write [50, 48, 9, 116, 101, 120, 116, 47, 103, 101, 109, 105, 110, 105, 13, 10],
             Write [104, 105]] = Write line # map Write bs)"
proof -
  let ?s = "example_conn\<lparr>url := Some (lit ''gemini://example.org/'')\<rparr>"
  let ?s' = "example_conn\<lparr>url := Some (lit ''gemini://example.org/''), status := Some 20,
            meta := Some (lit ''text/gemini''), response_size := 18,
            effects := [Write [50, 48, 9, 116, 101, 120, 116, 47, 103, 101, 109, 105, 110,
                               105, 13, 10], Write [104, 105]]\<rparr>"
  have fresh: "response_size ?s = 0" "effects ?s = []" "response_buffer ?s = []"
    "client_addr ?s = example_peer" "connected_timestamp ?s = example_now"
    by (simp_all add: example_conn_def connectionMade_def)
  have b: "payload (Bytes [104, 105]) = Some [104, 105]" by (simp add: payload_def)
  have run: "calls [WriteBody (Bytes [104, 105])] (write_status 20 (lit ''text/gemini'') ?s)
      = Inr ?s'"
    using first_body_commits [OF fresh(1) status_line_20_bytes b] fresh
    by (simp add: example_conn_def connectionMade_def)
  have last: "\<forall>c\<in>set [WriteBody (Bytes [104, 105])]. \<not> is_WriteStatus c" by simp
  have u: "url ?s = Some (lit ''gemini://example.org/'')" by simp
  from log_reports_last_write_status [OF run last u] fresh
  show ?thesis by (simp add: example_peer_def)
qed

text \<open>
  The claim as stated fails: the application answers \<^verbatim>\<open>20 text/gemini\<close>, yields
  \<^verbatim>\<open>b"hi"\<close> and raises. The client has received the status line of 20 and the chunk;
  the handler's \<^verbatim>\<open>except\<close> block then calls \<^verbatim>\<open>write_status\<close> with the CGI error, and
  the access-log line reports 42 and its message.
\<close>

theorem log_reports_untransmitted_status_counterexample:
  "written (effects (snd (lineReceived example_deps failing_app example_url example_conn)))
     = [[50, 48, 9, 116, 101, 120, 116, 47, 103, 101, 109, 105, 110, 105, 13, 10], [104, 105]]
   \<and> status (snd (lineReceived example_deps failing_app example_url example_conn)) = Some 42
   \<and> meta (snd (lineReceived example_deps failing_app example_url example_conn))
     = Some (lit ''An unexpected error occurred'')
   \<and> filter is_access_line
       (effects (snd (lineReceived example_deps failing_app example_url example_conn)))
     = [LogMessage (Text (access_line (lit ''203.0.113.7'') example_now
          (lit ''gemini://example.org/'') 42 (lit ''An unexpected error occurred'') 18))]"
  by (simp add: failing_run)

text \<open>
  C5. In a context that was built: when the transport has a peer certificate, each of
  the nine keys of the TLS identity is present and \<^verbatim>\<open>client_certificate\<close> is the
  certificate, not \<^verbatim>\<open>None\<close>; when it has none, none of the nine keys is present and
  \<^verbatim>\<open>client_certificate\<close> is \<^verbatim>\<open>None\<close>.
\<close>

theorem tls_identity_keys:
  assumes "build_environ w s = Inr environ"
  shows "(getPeerCertificate w \<noteq> None \<longrightarrow>
            (\<forall>k\<in>set tls_keys. environ k \<noteq> None)
          \<and> (\<exists>cert. environ ''client_certificate'' = Some (PyCertificate cert)))
       \<and> (getPeerCertificate w = None \<longrightarrow>
            (\<forall>k\<in>set tls_keys. environ k = None)
          \<and> environ ''client_certificate'' = Some PyNone)"
  using assms
proof (cases rule: build_environ_cases)
  case (plain u path query)
  then show ?thesis by (simp add: tls_keys_def)
next
  case (tls u path query cert cd)
  then show ?thesis by (simp add: tls_keys_def)
qed

theorem tls_identity_keys_witness:
  "(\<exists>environ. build_environ tls_deps parsed_conn = Inr environ
      \<and> environ ''AUTH_TYPE'' \<noteq> None \<and> environ ''REMOTE_USER'' \<noteq> None
      \<and> environ ''TLS_CLIENT_HASH'' \<noteq> None \<and> environ ''TLS_CLIENT_NOT_BEFORE'' \<noteq> None
      \<and> environ ''TLS_CLIENT_NOT_AFTER'' \<noteq> None \<and> environ ''TLS_CLIENT_SERIAL_NUMBER'' \<noteq> None
      \<and> environ ''TLS_CLIENT_VERIFIED'' \<noteq> None \<and> environ ''TLS_CIPHER'' \<noteq> None
      \<and> environ ''TLS_VERSION'' \<noteq> None
      \<and> (\<exists>cert. environ ''client_certificate'' = Some (PyCertificate cert)))
   \<and> (\<exists>environ. build_environ example_deps parsed_conn = Inr environ
      \<and> environ ''AUTH_TYPE'' = None \<and> environ ''REMOTE_USER'' = None
      \<and> environ ''TLS_CLIENT_HASH'' = None \<and> environ ''TLS_CLIENT_NOT_BEFORE'' = None
      \<and> environ ''TLS_CLIENT_NOT_AFTER'' = None \<and> environ ''TLS_CLIENT_SERIAL_NUMBER'' = None
      \<and> environ ''TLS_CLIENT_VERIFIED'' = None \<and> environ ''TLS_CIPHER'' = None
      \<and> environ ''TLS_VERSION'' = None
      \<and> environ ''client_certificate'' = Some PyNone)"
proof -
  from example_environ_tls obtain e1 where e1: "build_environ tls_deps parsed_conn = Inr e1"
    by blast
  have "getPeerCertificate tls_deps \<noteq> None" by (simp add: tls_deps_def)
  with tls_identity_keys [OF e1]
  have one: "(\<forall>k\<in>set tls_keys. e1 k \<noteq> None)
          \<and> (\<exists>cert. e1 ''client_certificate'' = Some (PyCertificate cert))"
    by blast
  from example_environ_plain obtain e2 where e2: "build_environ example_deps parsed_conn = Inr e2"
    by blast
  have "getPeerCertificate example_deps = None" by (simp add: example_deps_def)
  with tls_identity_keys [OF e2]
  have two: "(\<forall>k\<in>set tls_keys. e2 k = None) \<and> e2 ''client_certificate'' = Some PyNone"
    by blast
  from one e1 have "build_environ tls_deps parsed_conn = Inr e1
      \<and> e1 ''AUTH_TYPE'' \<noteq> None \<and> e1 ''REMOTE_USER'' \<noteq> None
      \<and> e1 ''TLS_CLIENT_HASH'' \<noteq> None \<and> e1 ''TLS_CLIENT_NOT_BEFORE'' \<noteq> None
      \<and> e1 ''TLS_CLIENT_NOT_AFTER'' \<noteq> None \<and> e1 ''TLS_CLIENT_SERIAL_NUMBER'' \<noteq> None
      \<and> e1 ''TLS_CLIENT_VERIFIED'' \<noteq> None \<and> e1 ''TLS_CIPHER'' \<noteq> None
      \<and> e1 ''TLS_VERSION'' \<noteq> None
      \<and> (\<exists>cert. e1 ''client_certificate'' = Some (PyCertificate cert))"
    by (simp add: tls_keys_def)
  moreover from two e2 have "build_environ example_deps parsed_conn = Inr e2
      \<and> e2 ''AUTH_TYPE'' = None \<and> e2 ''REMOTE_USER'' = None
      \<and> e2 ''TLS_CLIENT_HASH'' = None \<and> e2 ''TLS_CLIENT_NOT_BEFORE'' = None
      \<and> e2 ''TLS_CLIENT_NOT_AFTER'' = None \<and> e2 ''TLS_CLIENT_SERIAL_NUMBER'' = None
      \<and> e2 ''TLS_CLIENT_VERIFIED'' = None \<and> e2 ''TLS_CIPHER'' = None
      \<and> e2 ''TLS_VERSION'' = None
      \<and> e2 ''client_certificate'' = Some PyNone"
    by (simp add: tls_keys_def)
  ultimately show ?thesis by blast
qed

text \<open>
  C9. In a context that was built, \<^verbatim>\<open>REMOTE_ADDR\<close> and \<^verbatim>\<open>REMOTE_HOST\<close> are equal:
  both are the peer's host.
\<close>

theorem remote_addr_is_remote_host:
  assumes "build_environ w s = Inr environ"
  shows "environ ''REMOTE_ADDR'' = Some (PyStr (host (client_addr s)))
       \<and> environ ''REMOTE_HOST'' = environ ''REMOTE_ADDR''"
  using assms
proof (cases rule: build_environ_cases)
  case (plain u path query)
  then show ?thesis by simp
next
  case (tls u path query cert cd)
  then show ?thesis by simp
qed

theorem remote_addr_is_remote_host_witness:
  "\<exists>environ. build_environ tls_deps parsed_conn = Inr environ
     \<and> environ ''REMOTE_ADDR'' = Some (PyStr (lit ''203.0.113.7''))
     \<and> environ ''REMOTE_HOST'' = environ ''REMOTE_ADDR''"
proof -
  from example_environ_tls obtain e1 where e1: "build_environ tls_deps parsed_conn = Inr e1"
    by blast
  have "host (client_addr parsed_conn) = lit ''203.0.113.7''"
    by (simp add: parsed_conn_def example_conn_def connectionMade_def example_peer_def)
  with remote_addr_is_remote_host [OF e1] e1 show ?thesis by simp
qed

text \<open>
  C7. \<^verbatim>\<open>SERVER_PORT\<close> is meant to be the port the server listens on. The code does
  otherwise: for a peer on port 54321 of a server that listens on port 1965 the entry
  is \<^verbatim>\<open>"54321"\<close>, the port of the peer, since the source takes it from
  \<^verbatim>\<open>client_addr\<close>.
\<close>

theorem server_port_is_peer_port:
  "\<exists>environ. build_environ example_deps parsed_conn = Inr environ
     \<and> environ ''SERVER_PORT'' = Some (PyStr (lit ''54321''))
     \<and> port (client_addr parsed_conn) = 54321
     \<and> server_port example_deps = 1965"
  by (simp add: build_environ_def example_deps_def example_urlparse_def parsed_conn_def
      example_conn_def connectionMade_def example_peer_def str_nat_54321 lit_def)

end
